theory Spec2Isabelle
  imports Complex_Main "HOL-Library.Char_ord" "HOL-Library.List_Lexorder" "HOL-Library.Multiset"
begin

section \<open>Profile visualisation of dask (dask/diagnostics/profile\_visualize.py)\<close>

text \<open>
  The module turns profiler results into bokeh figures. The bokeh objects are modelled
  by records holding the attributes the module sets; Python exceptions are values of
  the type \<open>error\<close>, and a function that may raise returns \<open>error + 'a\<close>.
  Times are Python floats in the source; they are modelled by real numbers.
  Strings are compared as Python compares \<open>str\<close>: lexicographically by character code.
\<close>

datatype error = ValueError | KeyError | IndexError | ZeroDivisionError | TypeError

subsection \<open>Python helpers\<close>

text \<open>\<open>sep.join(xs)\<close>.\<close>

fun join :: "string \<Rightarrow> string list \<Rightarrow> string" where
  "join sep [] = []"
| "join sep [x] = x"
| "join sep (x # y # ys) = x @ sep @ join sep (y # ys)"

text \<open>
  \<open>int(a / d)\<close> under \<open>from __future__ import division\<close>: true division, then
  truncation towards zero; division by zero raises.
\<close>

definition int_truediv :: "int \<Rightarrow> nat \<Rightarrow> error + int" where
  "int_truediv a d =
     (if d = 0 then Inl ZeroDivisionError
      else if 0 \<le> a then Inr (a div int d)
      else Inr (- ((- a) div int d)))"

text \<open>
  A generator expression consumed by \<open>join\<close> or a list comprehension: the elements are
  computed from left to right and the first exception ends the evaluation.
\<close>

fun collect :: "(error + 'a) list \<Rightarrow> error + 'a list" where
  "collect [] = Inr []"
| "collect (Inl e # rs) = Inl e"
| "collect (Inr v # rs) = (case collect rs of Inl e \<Rightarrow> Inl e | Inr vs \<Rightarrow> Inr (v # vs))"

text \<open>\<open>min(xs)\<close> and \<open>max(xs)\<close> of a sequence: \<open>ValueError\<close> on the empty one.\<close>

fun py_min :: "('a::linorder) list \<Rightarrow> error + 'a" where
  "py_min [] = Inl ValueError"
| "py_min (x # xs) = Inr (fold min xs x)"

fun py_max :: "('a::linorder) list \<Rightarrow> error + 'a" where
  "py_max [] = Inl ValueError"
| "py_max (x # xs) = Inr (fold max xs x)"

text \<open>
  \<open>d[k]\<close> on a dict given by its items in insertion order, and \<open>dict(pairs)\<close>, in which
  a later pair replaces an earlier one with the same key.
\<close>

definition getitem :: "('k \<times> 'v) list \<Rightarrow> 'k \<Rightarrow> error + 'v" where
  "getitem d k = (case map_of d k of None \<Rightarrow> Inl KeyError | Some v \<Rightarrow> Inr v)"

fun dict_set :: "'k \<Rightarrow> 'v \<Rightarrow> ('k \<times> 'v) list \<Rightarrow> ('k \<times> 'v) list" where
  "dict_set k v [] = [(k, v)]"
| "dict_set k v ((k', v') # d) =
     (if k = k' then (k', v) # d else (k', v') # dict_set k v d)"

definition dict :: "('k \<times> 'v) list \<Rightarrow> ('k \<times> 'v) list" where
  "dict pairs = foldl (\<lambda>d (k, v). dict_set k v d) [] pairs"

text \<open>\<open>toolz.unique\<close>: the elements in order of first appearance.\<close>

fun unique_from :: "'a list \<Rightarrow> 'a list \<Rightarrow> 'a list" where
  "unique_from seen [] = []"
| "unique_from seen (x # xs) =
     (if x \<in> set seen then unique_from seen xs else x # unique_from (x # seen) xs)"

definition unique :: "'a list \<Rightarrow> 'a list" where
  "unique xs = unique_from [] xs"

text \<open>
  \<open>toolz.groupby(key, seq)\<close>: a dict from each key to the list of its items, the items
  in their order in \<open>seq\<close>, the keys in order of first appearance (dicts keep insertion
  order).
\<close>

fun group_add :: "'k \<Rightarrow> 'a \<Rightarrow> ('k \<times> 'a list) list \<Rightarrow> ('k \<times> 'a list) list" where
  "group_add k x [] = [(k, [x])]"
| "group_add k x ((k', xs) # g) =
     (if k = k' then (k', xs @ [x]) # g else (k', xs) # group_add k x g)"

definition groupby :: "('a \<Rightarrow> 'k) \<Rightarrow> 'a list \<Rightarrow> ('k \<times> 'a list) list" where
  "groupby f seq = foldl (\<lambda>g x. group_add (f x) x g) [] seq"

text \<open>
  \<open>sorted(xs, key=f, reverse=True)\<close>: CPython reverses the list, sorts it stably in
  ascending order and reverses the result, so equal keys keep their input order.
\<close>

definition sorted_reverse :: "('a \<Rightarrow> 'b::linorder) \<Rightarrow> 'a list \<Rightarrow> 'a list" where
  "sorted_reverse f xs = rev (sort_key f (rev xs))"

text \<open>\<open>str(n)\<close> of a natural number.\<close>

fun digits :: "nat \<Rightarrow> string" where
  "digits n =
     (if n < 10 then [''0123456789'' ! n]
      else digits (n div 10) @ [''0123456789'' ! (n mod 10)])"

subsection \<open>Task expressions\<close>

text \<open>
  A value of a dask graph is a task (a non-empty tuple whose first element is callable,
  \<open>istask\<close>), a list, or anything else. \<open>funcname\<close> of \<open>dask.dot\<close> gives a callable its
  display name; a callable is represented by that name, or, when it has the attribute
  \<open>funcs\<close>, by the names of the functions in it. For a leaf only the test
  \<open>task in keys\<close> matters: a hashable leaf is represented by a string, and
  \<open>Unhashable\<close> is a leaf for which the test raises \<open>TypeError\<close>.
\<close>

datatype func = Func string | Funcs "string list"

datatype leaf = Hashable string | Unhashable

datatype task = Leaf leaf | Task func "task list" | List "task list"

definition contains :: "string list \<Rightarrow> leaf \<Rightarrow> error + bool" where
  "contains keys v = (case v of Unhashable \<Rightarrow> Inl TypeError | Hashable s \<Rightarrow> Inr (s \<in> set keys))"

function (sequential) pprint_task :: "task \<Rightarrow> string list \<Rightarrow> int \<Rightarrow> error + string" where
  "pprint_task (Task func args) keys label_size =
     (let (head, tail) =
            (case func of
               Funcs fs \<Rightarrow> (join ''('' fs, replicate (length fs) CHR '')'')
             | Func name \<Rightarrow> (name, '')''))
      in case int_truediv (label_size - int (length head) - int (length tail)) (length args) of
           Inl e \<Rightarrow> Inl e
         | Inr label_size2 \<Rightarrow>
             (case (if label_size2 > 5
                    then map_sum id (join '', '')
                           (collect (map (\<lambda>t. pprint_task t keys label_size2) args))
                    else Inr ''...'') of
                Inl e \<Rightarrow> Inl e
              | Inr args_text \<Rightarrow> Inr (head @ ''('' @ args_text @ tail)))"
| "pprint_task (List elems) keys label_size =
     (let task2 = take 3 elems
      in case int_truediv (label_size - 2 - 2 * int (length task2)) (length task2) of
           Inl e \<Rightarrow> Inl e
         | Inr label_size2 \<Rightarrow>
             (case collect (map (\<lambda>t. pprint_task t keys label_size2) task2) of
                Inl e \<Rightarrow> Inl e
              | Inr texts \<Rightarrow>
                  if length elems > 3
                  then Inr (''['' @ join '', '' texts @ '', ...]'')
                  else Inr (''['' @ join '', '' texts @ '']'')))"
| "pprint_task (Leaf v) keys label_size =
     (case contains keys v of
        Inr True \<Rightarrow> Inr ''_''
      | Inr False \<Rightarrow> Inr ''*''
      | Inl TypeError \<Rightarrow> Inr ''*''
      | Inl e \<Rightarrow> Inl e)"
  by pat_completeness auto

text \<open>
  Every recursive call is on an argument of the task or on one of the first three
  elements of the list, which is smaller than the expression itself.
\<close>

lemma size_list_member: "x \<in> set xs \<Longrightarrow> size x < Suc (size_list size xs)"
  by (induction xs) auto

lemma pprint_task_rel_size:
  assumes "pprint_task_rel (s, keys2, label_size2) (t, keys, label_size)"
  shows "size s < size t"
  using assms
  by (cases rule: pprint_task_rel.cases) (auto simp: size_list_member dest!: in_set_takeD)

text \<open>
  The subexpressions on which the summary of an expression may be computed: the
  arguments of a task, the first three elements of a list.
\<close>

fun operands :: "task \<Rightarrow> task list" where
  "operands (Task func args) = args"
| "operands (List elems) = take 3 elems"
| "operands (Leaf v) = []"

lemma pprint_task_rel_operands:
  assumes "pprint_task_rel (s, keys2, label_size2) (t, keys, label_size)"
  shows "s \<in> set (operands t)"
  using assms
  by (cases rule: pprint_task_rel.cases) auto

lemma pprint_task_dom_all: "All pprint_task_dom"
proof (relation "measure (\<lambda>(t, keys, label_size). size t)", goal_cases)
  case 1
  show ?case by simp
next
  case (2 func args keys label_size x xa y b xb)
  then have "pprint_task_rel (xb, keys, b) (Task func args, keys, label_size)"
    by (rule pprint_task_rel.intros(1))
  then show ?case
    by (auto dest: pprint_task_rel_size)
next
  case (3 elems keys label_size x b xa)
  then have "pprint_task_rel (xa, keys, b) (List elems, keys, label_size)"
    by (rule pprint_task_rel.intros(2))
  then show ?case
    by (auto dest: pprint_task_rel_size)
qed

termination pprint_task
  by (rule pprint_task_dom_all)

subsection \<open>Colours\<close>

text \<open>
  \<open>bokeh.palettes.brewer\<close> is a table of bokeh: a dict from the name of a palette to a
  dict from a size to the list of the colours of that size. It is a parameter of the
  functions that read it.
\<close>

type_synonym palettes = "(string \<times> (nat \<times> string list) list) list"

text \<open>The first \<open>n\<close> elements of \<open>itertools.cycle(cs)\<close>; nothing when \<open>cs\<close> is empty.\<close>

definition cycle :: "nat \<Rightarrow> 'a list \<Rightarrow> 'a list" where
  "cycle n cs = (if cs = [] then [] else map (\<lambda>i. cs ! (i mod length cs)) [0..<n])"

definition get_colors :: "palettes \<Rightarrow> string \<Rightarrow> ('l::linorder) list \<Rightarrow> error + string list" where
  "get_colors brewer palette funcs =
     (let unique_funcs = sort (unique funcs);
          n_funcs = length unique_funcs
      in case getitem brewer palette of
           Inl e \<Rightarrow> Inl e
         | Inr palette_lookup \<Rightarrow>
             (let keys = map fst palette_lookup
              in case py_min keys of
                   Inl e \<Rightarrow> Inl e
                 | Inr low \<Rightarrow>
                     (case py_max keys of
                        Inl e \<Rightarrow> Inl e
                      | Inr high \<Rightarrow>
                          (case (if n_funcs > high
                                 then map_sum id (cycle n_funcs) (getitem palette_lookup high)
                                 else if n_funcs < low
                                 then getitem palette_lookup low
                                 else getitem palette_lookup n_funcs) of
                             Inl e \<Rightarrow> Inl e
                           | Inr colors \<Rightarrow>
                               (let color_lookup = dict (zip unique_funcs colors)
                                in collect (map (\<lambda>n. getitem color_lookup n) funcs))))))"

text \<open>
  What the functions below rely on in a palette of \<open>brewer\<close>: it has sizes, its
  sizes are the numbers from the least to the greatest one, and the entry of size \<open>k\<close> is
  a list of \<open>k\<close> different colours, \<open>k\<close> positive. The palettes of bokeh are such.
\<close>

definition wf_palette :: "(nat \<times> string list) list \<Rightarrow> bool" where
  "wf_palette palette_lookup \<longleftrightarrow>
     palette_lookup \<noteq> []
     \<and> list_all (\<lambda>(k, cs). 0 < k \<and> length cs = k \<and> distinct cs) palette_lookup
     \<and> list_all (\<lambda>k. k \<in> set (map fst palette_lookup))
           [Min (set (map fst palette_lookup))..<Suc (Max (set (map fst palette_lookup)))]"

subsection \<open>Figures\<close>

text \<open>
  A bokeh figure, by the attributes this module sets: the ranges, the labels, the
  borders (\<open>None\<close> is bokeh's default) and what is drawn. Attributes that are the same
  constant in every figure (tools, sizes, line colours and widths, the hover text) are
  left out, and so are the keyword arguments that would replace them.
\<close>

record ColumnDataSource =
  data_width :: "real list"
  data_x :: "real list"
  data_y :: "nat list"
  data_function :: "string list"
  data_color :: "string list"
  data_key :: "string list"

datatype y_range = Factors "string list" | Range1d real real

datatype glyph =
    Rect ColumnDataSource
  | Line "real list" "real list" string "string option" string

record figure =
  title :: "string option"
  x_range :: "real \<times> real"
  y_range :: y_range
  extra_y_ranges :: "(string \<times> y_range) list"
  xaxis_label :: "string option"
  yaxis_label :: "string option"
  min_border_top :: "nat option"
  min_border_bottom :: "nat option"
  min_border_left :: "nat option"
  min_border_right :: "nat option"
  glyphs :: "glyph list"

subsection \<open>The task plot\<close>

text \<open>An element of \<open>Profiler.results\<close>: the tuple \<open>(key, task, start_time, end_time, worker_id)\<close>.\<close>

record TaskData =
  key :: string
  task :: task
  start_time :: real
  end_time :: real
  worker_id :: int

text \<open>Lines 181 to 185: the durations of each worker, and the rank of each worker.\<close>

definition timings :: "TaskData list \<Rightarrow> (int \<times> real list) list" where
  "timings results =
     dict (map (\<lambda>(k, v). (k, map (\<lambda>i. end_time i - start_time i) v))
             (groupby worker_id results))"

definition id_lk :: "TaskData list \<Rightarrow> (int \<times> nat) list" where
  "id_lk results =
     dict (map (\<lambda>(n, t). (fst t, n)) (enumerate 0 (sorted_reverse snd (timings results))))"

definition plot_tasks ::
  "palettes \<Rightarrow> TaskData list \<Rightarrow> (string \<times> task) list \<Rightarrow> string \<Rightarrow> int \<Rightarrow> error + figure" where
  "plot_tasks brewer results dsk palette label_size =
     (if results = [] then Inl ValueError
      else
        let keys = map key results;
            tasks = map task results;
            starts = map start_time results;
            ends = map end_time results;
            ids = map worker_id results
        in case py_min starts of
             Inl e \<Rightarrow> Inl e
           | Inr left \<Rightarrow>
               (case py_max ends of
                  Inl e \<Rightarrow> Inl e
                | Inr right \<Rightarrow>
                    (let width = map (\<lambda>(s, e). e - s) (zip starts ends);
                         xs = map (\<lambda>(w, s). w / 2 + s - left) (zip width starts)
                     in case collect (map (\<lambda>i. map_sum id (\<lambda>n. n + 1)
                                                   (getitem (id_lk results) i)) ids) of
                          Inl e \<Rightarrow> Inl e
                        | Inr ys \<Rightarrow>
                            (case collect (map (\<lambda>i. pprint_task i (map fst dsk) label_size)
                                             tasks) of
                               Inl e \<Rightarrow> Inl e
                             | Inr funcs \<Rightarrow>
                                 (case get_colors brewer palette funcs of
                                    Inl e \<Rightarrow> Inl e
                                  | Inr colors \<Rightarrow>
                                      Inr \<lparr>title = Some ''Profile Results'',
                                           x_range = (0, right - left),
                                           y_range = Factors
                                             (map digits [0..<length (id_lk results)]),
                                           extra_y_ranges = [],
                                           xaxis_label = Some ''Time (s)'',
                                           yaxis_label = Some ''Worker ID'',
                                           min_border_top = None,
                                           min_border_bottom = None,
                                           min_border_left = None,
                                           min_border_right = None,
                                           glyphs =
                                             [Rect \<lparr>data_width = width, data_x = xs,
                                                    data_y = ys, data_function = funcs,
                                                    data_color = colors,
                                                    data_key = keys\<rparr>]\<rparr>)))))"

subsection \<open>The resource plot\<close>

text \<open>
  An element of \<open>ResourceProfiler.results\<close> is a tuple that line 250 unpacks in the
  order \<open>t, mem, cpu\<close>. \<open>xs[i]\<close> raises \<open>IndexError\<close> out of range.
\<close>

definition item :: "'a list \<Rightarrow> nat \<Rightarrow> error + 'a" where
  "item xs i = (if i < length xs then Inr (xs ! i) else Inl IndexError)"

definition plot_resources ::
  "palettes \<Rightarrow> (real \<times> real \<times> real) list \<Rightarrow> string \<Rightarrow> error + figure" where
  "plot_resources brewer results palette =
     (if results = [] then Inl ValueError
      else
        let t = map (\<lambda>(t, mem, cpu). t) results;
            mem = map (\<lambda>(t, mem, cpu). mem) results;
            cpu = map (\<lambda>(t, mem, cpu). cpu) results
        in case py_min t of
             Inl e \<Rightarrow> Inl e
           | Inr left \<Rightarrow>
               (case py_max t of
                  Inl e \<Rightarrow> Inl e
                | Inr right \<Rightarrow>
                    (let t = map (\<lambda>i. i - left) t
                     in case py_max cpu of
                          Inl e \<Rightarrow> Inl e
                        | Inr cpu_max \<Rightarrow>
                            (case getitem brewer palette of
                               Inl e \<Rightarrow> Inl e
                             | Inr palette_lookup \<Rightarrow>
                                 (case getitem palette_lookup 6 of
                                    Inl e \<Rightarrow> Inl e
                                  | Inr colors \<Rightarrow>
                                      (case item colors 0 of
                                         Inl e \<Rightarrow> Inl e
                                       | Inr color0 \<Rightarrow>
                                           (case py_max mem of
                                              Inl e \<Rightarrow> Inl e
                                            | Inr mem_max \<Rightarrow>
                                                (case item colors 2 of
                                                   Inl e \<Rightarrow> Inl e
                                                 | Inr color2 \<Rightarrow>
                                                     Inr \<lparr>title = Some ''Profile Results'',
                                                          x_range = (0, right - left),
                                                          y_range = Range1d 0 cpu_max,
                                                          extra_y_ranges =
                                                            [(''memory'', Range1d 0 mem_max)],
                                                          xaxis_label = Some ''Time (s)'',
                                                          yaxis_label = Some ''% CPU'',
                                                          min_border_top = None,
                                                          min_border_bottom = None,
                                                          min_border_left = None,
                                                          min_border_right = None,
                                                          glyphs =
                                                            [Line t cpu color0 None ''% CPU'',
                                                             Line t mem color2 (Some ''memory'')
                                                               ''Memory'']\<rparr>))))))))"

subsection \<open>The calls to bokeh\<close>

text \<open>
  The two plots call bokeh while they run: \<open>bp.figure\<close> (lines 196 and 258),
  \<open>bp.ColumnDataSource\<close>, \<open>p.rect\<close> and \<open>p.select\<close> (lines 207, 209 and 217), \<open>p.line\<close>,
  \<open>Range1d\<close>, \<open>LinearAxis\<close> and \<open>p.add_layout\<close> (lines 260 to 265). \<open>plot_tasks_run\<close> and
  \<open>plot_resources_run\<close> are the two functions again, with the calls made up to the return
  or up to the exception written beside the result, in order; the arguments of a call are
  computed before the call is made. Assignments to attributes of the figure are not
  calls, and without keyword arguments \<open>bp.Figure.properties\<close> is never called.
\<close>

datatype figure_call =
    Call_bp_figure
  | Call_bp_ColumnDataSource
  | Call_p_rect
  | Call_p_select
  | Call_p_line
  | Call_Range1d
  | Call_LinearAxis
  | Call_p_add_layout

definition plot_tasks_run ::
  "palettes \<Rightarrow> TaskData list \<Rightarrow> (string \<times> task) list \<Rightarrow> string \<Rightarrow> int
     \<Rightarrow> figure_call list \<times> (error + figure)" where
  "plot_tasks_run brewer results dsk palette label_size =
     (if results = [] then ([], Inl ValueError)
      else
        let keys = map key results;
            tasks = map task results;
            starts = map start_time results;
            ends = map end_time results;
            ids = map worker_id results
        in case py_min starts of
             Inl e \<Rightarrow> ([], Inl e)
           | Inr left \<Rightarrow>
               (case py_max ends of
                  Inl e \<Rightarrow> ([], Inl e)
                | Inr right \<Rightarrow>
                    (let calls = [Call_bp_figure];
                         width = map (\<lambda>(s, e). e - s) (zip starts ends);
                         xs = map (\<lambda>(w, s). w / 2 + s - left) (zip width starts)
                     in case collect (map (\<lambda>i. map_sum id (\<lambda>n. n + 1)
                                                   (getitem (id_lk results) i)) ids) of
                          Inl e \<Rightarrow> (calls, Inl e)
                        | Inr ys \<Rightarrow>
                            (case collect (map (\<lambda>i. pprint_task i (map fst dsk) label_size)
                                             tasks) of
                               Inl e \<Rightarrow> (calls, Inl e)
                             | Inr funcs \<Rightarrow>
                                 (case get_colors brewer palette funcs of
                                    Inl e \<Rightarrow> (calls, Inl e)
                                  | Inr colors \<Rightarrow>
                                      (calls @ [Call_bp_ColumnDataSource, Call_p_rect,
                                                Call_p_select],
                                       Inr \<lparr>title = Some ''Profile Results'',
                                            x_range = (0, right - left),
                                            y_range = Factors
                                              (map digits [0..<length (id_lk results)]),
                                            extra_y_ranges = [],
                                            xaxis_label = Some ''Time (s)'',
                                            yaxis_label = Some ''Worker ID'',
                                            min_border_top = None,
                                            min_border_bottom = None,
                                            min_border_left = None,
                                            min_border_right = None,
                                            glyphs =
                                              [Rect \<lparr>data_width = width, data_x = xs,
                                                     data_y = ys, data_function = funcs,
                                                     data_color = colors,
                                                     data_key = keys\<rparr>]\<rparr>))))))"

definition plot_resources_run ::
  "palettes \<Rightarrow> (real \<times> real \<times> real) list \<Rightarrow> string
     \<Rightarrow> figure_call list \<times> (error + figure)" where
  "plot_resources_run brewer results palette =
     (if results = [] then ([], Inl ValueError)
      else
        let t = map (\<lambda>(t, mem, cpu). t) results;
            mem = map (\<lambda>(t, mem, cpu). mem) results;
            cpu = map (\<lambda>(t, mem, cpu). cpu) results
        in case py_min t of
             Inl e \<Rightarrow> ([], Inl e)
           | Inr left \<Rightarrow>
               (case py_max t of
                  Inl e \<Rightarrow> ([], Inl e)
                | Inr right \<Rightarrow>
                    (let t = map (\<lambda>i. i - left) t
                     in case py_max cpu of
                          Inl e \<Rightarrow> ([], Inl e)
                        | Inr cpu_max \<Rightarrow>
                            (case getitem brewer palette of
                               Inl e \<Rightarrow> ([Call_bp_figure], Inl e)
                             | Inr palette_lookup \<Rightarrow>
                                 (case getitem palette_lookup 6 of
                                    Inl e \<Rightarrow> ([Call_bp_figure], Inl e)
                                  | Inr colors \<Rightarrow>
                                      (case item colors 0 of
                                         Inl e \<Rightarrow> ([Call_bp_figure], Inl e)
                                       | Inr color0 \<Rightarrow>
                                           (case py_max mem of
                                              Inl e \<Rightarrow> ([Call_bp_figure, Call_p_line], Inl e)
                                            | Inr mem_max \<Rightarrow>
                                                (case item colors 2 of
                                                   Inl e \<Rightarrow>
                                                     ([Call_bp_figure, Call_p_line,
                                                       Call_Range1d], Inl e)
                                                 | Inr color2 \<Rightarrow>
                                                     ([Call_bp_figure, Call_p_line,
                                                       Call_Range1d, Call_p_line,
                                                       Call_LinearAxis, Call_p_add_layout],
                                                      Inr \<lparr>title = Some ''Profile Results'',
                                                           x_range = (0, right - left),
                                                           y_range = Range1d 0 cpu_max,
                                                           extra_y_ranges =
                                                             [(''memory'', Range1d 0 mem_max)],
                                                           xaxis_label = Some ''Time (s)'',
                                                           yaxis_label = Some ''% CPU'',
                                                           min_border_top = None,
                                                           min_border_bottom = None,
                                                           min_border_left = None,
                                                           min_border_right = None,
                                                           glyphs =
                                                             [Line t cpu color0 None ''% CPU'',
                                                              Line t mem color2 (Some ''memory'')
                                                                ''Memory'']\<rparr>)))))))))"

subsection \<open>Stacking figures\<close>

text \<open>
  \<open>visualize\<close> asks each profiler for its figure (\<open>prof._plot\<close>, a method of the
  profilers) and stacks the figures. The model starts from the list \<open>figs\<close> of these
  figures and from \<open>bokeh.io._state._notebook\<close>; it returns the plot together with the
  calls made to bokeh, in order.
\<close>

datatype plot = Fig figure | Gridplot "figure list list"

datatype bokeh_call = Output_file string | Show plot | Save plot

definition visualize ::
  "bool \<Rightarrow> figure list \<Rightarrow> string option \<Rightarrow> bool \<Rightarrow> bool \<Rightarrow> error + plot \<times> bokeh_call list" where
  "visualize notebook figs file_path show save =
     (let file_path1 =
            (if \<not> notebook
             then (case file_path of
                     None \<Rightarrow> Some ''profile.html''
                   | Some name \<Rightarrow> if name = [] then Some ''profile.html'' else Some name)
             else file_path);
          calls = (case file_path1 of
                     Some name \<Rightarrow> if \<not> notebook then [Output_file name] else []
                   | None \<Rightarrow> [])
      in case (if length figs = 1 then Inr (Fig (hd figs))
               else if figs = [] then Inl IndexError
               else
                 let top = hd figs;
                     figs1 = take 1 figs @
                       map (\<lambda>f. f\<lparr>x_range := x_range top, title := None,
                                  min_border_top := Some 20\<rparr>) (drop 1 figs);
                     figs2 = map (\<lambda>f. f\<lparr>xaxis_label := None, min_border_bottom := Some 20\<rparr>)
                               (take 1 figs1) @ drop 1 figs1;
                     figs3 = map (\<lambda>f. f\<lparr>min_border_left := Some 75,
                                         min_border_right := Some 75\<rparr>) figs2
                 in Inr (Gridplot (map (\<lambda>f. [f]) figs3))) of
           Inl e \<Rightarrow> Inl e
         | Inr p \<Rightarrow>
             Inr (p, calls @ (if show then [Show p] else [])
                     @ (if file_path1 \<noteq> None \<and> file_path1 \<noteq> Some [] \<and> save
                        then [Save p] else [])))"

subsection \<open>Notions used in the statements\<close>

text \<open>
  \<open>before xs a b\<close>: \<open>a\<close> stands at an earlier position of \<open>xs\<close> than \<open>b\<close>.
  \<open>durations results w\<close>: the durations of the tasks of worker \<open>w\<close>, in the order of
  the input; their sum is the time the worker was busy.
  \<open>ahead results a b\<close>: worker \<open>a\<close> has a greater list of durations than worker \<open>b\<close> in
  the lexicographic order, or the same list and an earlier first appearance in the input.
\<close>

definition before :: "'a list \<Rightarrow> 'a \<Rightarrow> 'a \<Rightarrow> bool" where
  "before xs a b \<longleftrightarrow> (\<exists>j<length xs. \<exists>i<j. xs ! i = a \<and> xs ! j = b)"

definition durations :: "TaskData list \<Rightarrow> int \<Rightarrow> real list" where
  "durations results w =
     map (\<lambda>i. end_time i - start_time i) (filter (\<lambda>i. worker_id i = w) results)"

definition ahead :: "TaskData list \<Rightarrow> int \<Rightarrow> int \<Rightarrow> bool" where
  "ahead results a b \<longleftrightarrow>
     durations results b < durations results a
     \<or> (durations results a = durations results b
         \<and> before (unique (map worker_id results)) a b)"

subsection \<open>Example data\<close>

text \<open>
  A table of the shape of \<open>bokeh.palettes.brewer\<close>, with one palette in the sizes
  3 to 6, a figure as a profiler could return it, and results of a profiler: in
  \<open>example_busy\<close> worker 1 runs three tasks of one second and worker 2 one task of two
  seconds; in \<open>example_ties\<close> the workers 5 and 3 run one task of two seconds each and
  worker 7 two tasks of one second; in \<open>example_heads\<close> three tasks call the same function
  \<open>add\<close>, the first and the third on two keys of the graph \<open>example_dsk\<close>, the second on a
  key and a value that is no key; the task of \<open>example_noargs\<close> calls a function without
  arguments.
\<close>

definition example_GnBu :: "(nat \<times> string list) list" where
  "example_GnBu =
     [(3, [''#43a2ca'', ''#a8ddb5'', ''#e0f3db'']),
      (4, [''#2b8cbe'', ''#7bccc4'', ''#bae4bc'', ''#f0f9e8'']),
      (5, [''#0868ac'', ''#43a2ca'', ''#7bccc4'', ''#bae4bc'', ''#f0f9e8'']),
      (6, [''#0868ac'', ''#43a2ca'', ''#7bccc4'', ''#a8ddb5'', ''#ccebc5'', ''#f0f9e8''])]"

definition example_brewer :: palettes where
  "example_brewer = [(''GnBu'', example_GnBu)]"

definition example_figure :: "string \<Rightarrow> real \<Rightarrow> figure" where
  "example_figure name right =
     \<lparr>title = Some name, x_range = (0, right), y_range = Range1d 0 1, extra_y_ranges = [],
      xaxis_label = Some ''Time (s)'', yaxis_label = None,
      min_border_top = None, min_border_bottom = None,
      min_border_left = None, min_border_right = None, glyphs = []\<rparr>"

definition example_task :: "string \<Rightarrow> real \<Rightarrow> real \<Rightarrow> int \<Rightarrow> TaskData" where
  "example_task k s e w =
     \<lparr>key = k, task = Task (Func ''inc'') [Leaf (Hashable ''x'')],
      start_time = s, end_time = e, worker_id = w\<rparr>"

definition example_busy :: "TaskData list" where
  "example_busy =
     [example_task ''a'' 0 1 1, example_task ''b'' 1 2 1, example_task ''c'' 2 3 1,
      example_task ''d'' 0 2 2]"

definition example_ties :: "TaskData list" where
  "example_ties =
     [example_task ''a'' 0 2 5, example_task ''b'' 0 1 7, example_task ''c'' 1 2 7,
      example_task ''d'' 2 4 3]"

definition example_dsk :: "(string \<times> task) list" where
  "example_dsk = [(''x'', Leaf (Hashable ''1'')), (''y'', Leaf (Hashable ''2''))]"

definition example_heads :: "TaskData list" where
  "example_heads =
     [\<lparr>key = ''a'', task = Task (Func ''add'') [Leaf (Hashable ''x''), Leaf (Hashable ''y'')],
       start_time = 0, end_time = 10, worker_id = 1\<rparr>,
      \<lparr>key = ''b'', task = Task (Func ''add'') [Leaf (Hashable ''x''), Leaf (Hashable ''1'')],
       start_time = 5, end_time = 15, worker_id = 2\<rparr>,
      \<lparr>key = ''c'', task = Task (Func ''add'') [Leaf (Hashable ''y''), Leaf (Hashable ''x'')],
       start_time = 10, end_time = 15, worker_id = 1\<rparr>]"

definition example_noargs :: TaskData where
  "example_noargs =
     \<lparr>key = ''a'', task = Task (Func ''f'') [], start_time = 0, end_time = 1, worker_id = 1\<rparr>"

section \<open>The summary of a task\<close>

text \<open>
  C3: the summary is claimed never to raise, a call without arguments included. In
  the source, line 52 divides by the number of arguments and line 61 by the number of
  elements taken from the list, so a task without arguments and an empty list both raise
  \<open>ZeroDivisionError\<close>, whatever the keys and the label size. The \<open>TypeError\<close> of the
  test on a leaf is caught, as claimed: such a leaf is shown as \<open>*\<close>.
\<close>

theorem pprint_task_no_arguments:
  "pprint_task (Task (Func name) []) keys label_size = Inl ZeroDivisionError
   \<and> pprint_task (Task (Funcs names) []) keys label_size = Inl ZeroDivisionError
   \<and> pprint_task (List []) keys label_size = Inl ZeroDivisionError
   \<and> pprint_task (Leaf Unhashable) keys label_size = Inr ''*''"
  by (simp add: int_truediv_def contains_def)

text \<open>
  C10: the summary terminates on every expression, whatever the label size: every
  input is in the domain of the recursion, and every recursive call (the relation
  \<open>pprint_task_rel\<close> relates the arguments of a recursive call to the arguments of the
  call that makes it) is on an argument of the task or on one of the first three elements
  of the list, an expression strictly smaller than the one summarised.
\<close>

theorem pprint_task_terminates:
  "pprint_task_dom (t, keys, label_size)
   \<and> (\<forall>s keys2 label_size2.
         pprint_task_rel (s, keys2, label_size2) (t, keys, label_size) \<longrightarrow>
         s \<in> set (operands t) \<and> size s < size t)"
  using pprint_task_dom_all pprint_task_rel_size pprint_task_rel_operands by blast

theorem pprint_task_terminates_witness:
  "pprint_task_rel (Leaf Unhashable, [], 58) (Task (Func ''f'') [Leaf Unhashable], [], 60)
   \<and> Leaf Unhashable \<in> set (operands (Task (Func ''f'') [Leaf Unhashable]))
   \<and> size (Leaf Unhashable) < size (Task (Func ''f'') [Leaf Unhashable])"
proof -
  have r: "pprint_task_rel (Leaf Unhashable, [], 58) (Task (Func ''f'') [Leaf Unhashable], [], 60)"
    by (rule pprint_task_rel.intros(1) [where x = "(''f'', '')'')" and xa = "''f''" and y = "'')''"])
       (simp_all add: int_truediv_def)
  with pprint_task_terminates [of "Task (Func ''f'') [Leaf Unhashable]" "[]" 60]
  show ?thesis by simp
qed

section \<open>Stacked figures\<close>

text \<open>
  C6: with two or more figures, every figure but the last is claimed to lose the label
  of its horizontal axis. The loop of line 143 runs over \<open>figs[:1]\<close>, the first figure
  only, so of three figures the second keeps its label as well as the third.
\<close>

theorem visualize_three_figures:
  "visualize False [example_figure ''a'' 1, example_figure ''b'' 2, example_figure ''c'' 3]
     None False False =
   Inr (Gridplot
         [[(example_figure ''a'' 1)\<lparr>xaxis_label := None, min_border_bottom := Some 20,
             min_border_left := Some 75, min_border_right := Some 75\<rparr>],
          [(example_figure ''b'' 2)\<lparr>x_range := (0, 1), title := None, min_border_top := Some 20,
             min_border_left := Some 75, min_border_right := Some 75\<rparr>],
          [(example_figure ''c'' 3)\<lparr>x_range := (0, 1), title := None, min_border_top := Some 20,
             min_border_left := Some 75, min_border_right := Some 75\<rparr>]],
        [Output_file ''profile.html''])
   \<and> xaxis_label ((example_figure ''b'' 2)\<lparr>x_range := (0, 1), title := None,
         min_border_top := Some 20, min_border_left := Some 75,
         min_border_right := Some 75\<rparr>) = Some ''Time (s)''"
  by (simp add: visualize_def example_figure_def)

section \<open>The resource plot\<close>

text \<open>Python's \<open>min\<close> and \<open>max\<close> are the least and the greatest element.\<close>

lemma py_min_eq: "py_min xs = (if xs = [] then Inl ValueError else Inr (Min (set xs)))"
proof (cases xs)
  case Nil
  then show ?thesis by simp
next
  case (Cons a list)
  then show ?thesis
    using Min.set_eq_fold [of a list] by simp
qed

lemma py_max_eq: "py_max xs = (if xs = [] then Inl ValueError else Inr (Max (set xs)))"
proof (cases xs)
  case Nil
  then show ?thesis by simp
next
  case (Cons a list)
  then show ?thesis
    using Max.set_eq_fold [of a list] by simp
qed

lemma collect_map_Inr: "collect (map Inr vs) = Inr vs"
  by (induction vs) simp_all

lemma collect_Inr: "collect rs = Inr vs \<longleftrightarrow> rs = map Inr vs"
proof
  show "collect rs = Inr vs \<Longrightarrow> rs = map Inr vs"
  proof (induction rs arbitrary: vs rule: collect.induct)
    case 1
    then show ?case by simp
  next
    case (2 e rs)
    then show ?case by simp
  next
    case (3 v rs)
    then show ?case
      by (auto split: sum.splits)
  qed
next
  show "rs = map Inr vs \<Longrightarrow> collect rs = Inr vs"
    by (simp add: collect_map_Inr)
qed

lemma plot_resources_Inr:
  assumes "plot_resources brewer results palette = Inr fig"
  shows "results \<noteq> []"
    and "x_range fig = (0, Max (set (map (\<lambda>(t, mem, cpu). t) results))
                         - Min (set (map (\<lambda>(t, mem, cpu). t) results)))"
    and "y_range fig = Range1d 0 (Max (set (map (\<lambda>(t, mem, cpu). cpu) results)))"
    and "extra_y_ranges fig =
           [(''memory'', Range1d 0 (Max (set (map (\<lambda>(t, mem, cpu). mem) results))))]"
    and "\<exists>color0 color2.
           glyphs fig =
             [Line (map (\<lambda>(t, mem, cpu). t - Min (set (map (\<lambda>(t, mem, cpu). t) results))) results)
                (map (\<lambda>(t, mem, cpu). cpu) results) color0 None ''% CPU'',
              Line (map (\<lambda>(t, mem, cpu). t - Min (set (map (\<lambda>(t, mem, cpu). t) results))) results)
                (map (\<lambda>(t, mem, cpu). mem) results) color2 (Some ''memory'') ''Memory'']"
  using assms
  by (auto simp: plot_resources_def py_min_eq py_max_eq Let_def comp_def case_prod_unfold
      split: if_splits sum.splits)

lemma plot_resources_returns:
  assumes "results \<noteq> []"
    and "getitem brewer palette = Inr palette_lookup"
    and "getitem palette_lookup 6 = Inr colors"
    and "3 \<le> length colors"
  shows "\<exists>fig. plot_resources brewer results palette = Inr fig"
  using assms
  by (auto simp: plot_resources_def py_min_eq py_max_eq Let_def item_def)

text \<open>
  C5: the samples \<open>[(0,10,100),(1,20,150),(2,15,120)]\<close> are claimed to give the CPU axis
  the range \<open>[0,20]\<close> and the memory axis the range \<open>[0,150]\<close>. Line 250 unpacks a
  sample in the order \<open>t, mem, cpu\<close>, so the second components are the memory series and
  the third the CPU series: the CPU axis gets \<open>[0,150]\<close> and the memory axis \<open>[0,20]\<close>.
\<close>

theorem plot_resources_example:
  "plot_resources example_brewer [(0, 10, 100), (1, 20, 150), (2, 15, 120)] ''GnBu'' =
     Inr \<lparr>title = Some ''Profile Results'', x_range = (0, 2), y_range = Range1d 0 150,
          extra_y_ranges = [(''memory'', Range1d 0 20)],
          xaxis_label = Some ''Time (s)'', yaxis_label = Some ''% CPU'',
          min_border_top = None, min_border_bottom = None,
          min_border_left = None, min_border_right = None,
          glyphs = [Line [0, 1, 2] [100, 150, 120] ''#0868ac'' None ''% CPU'',
                    Line [0, 1, 2] [10, 20, 15] ''#7bccc4'' (Some ''memory'') ''Memory'']\<rparr>"
  by (simp add: plot_resources_def example_brewer_def example_GnBu_def getitem_def item_def Let_def)

text \<open>
  C5, as the code has it: whenever the resource plot is returned, the horizontal range
  is \<open>[0, max t - min t]\<close>, the range of the CPU axis is \<open>[0, max cpu]\<close> and the range
  of the memory axis is \<open>[0, max mem]\<close>, each maximum the greatest value of the series,
  where a sample is \<open>(t, mem, cpu)\<close>.
\<close>

theorem plot_resources_ranges:
  assumes "plot_resources brewer results palette = Inr fig"
  shows "x_range fig = (0, Max (set (map (\<lambda>(t, mem, cpu). t) results))
                           - Min (set (map (\<lambda>(t, mem, cpu). t) results)))
         \<and> y_range fig = Range1d 0 (Max (set (map (\<lambda>(t, mem, cpu). cpu) results)))
         \<and> extra_y_ranges fig =
             [(''memory'', Range1d 0 (Max (set (map (\<lambda>(t, mem, cpu). mem) results))))]"
  using plot_resources_Inr(2-4) [OF assms] by simp

theorem plot_resources_ranges_witness:
  "\<exists>fig. plot_resources example_brewer [(0, 100, 10), (1, 150, 20), (2, 120, 15)] ''GnBu'' = Inr fig
     \<and> x_range fig = (0, 2) \<and> y_range fig = Range1d 0 20
     \<and> extra_y_ranges fig = [(''memory'', Range1d 0 150)]"
proof -
  obtain fig where
    fig: "plot_resources example_brewer [(0, 100, 10), (1, 150, 20), (2, 120, 15)] ''GnBu'' = Inr fig"
    by (simp add: plot_resources_def example_brewer_def example_GnBu_def getitem_def item_def Let_def)
  from plot_resources_ranges [OF fig] fig show ?thesis
    by simp
qed

text \<open>
  C8: the resource plot is claimed to sort the samples by time, so that a permutation
  of the samples gives the same plot. The source does not sort: the two series follow the
  order of the input, and two orders of the same two samples give different plots.
\<close>

theorem plot_resources_not_sorted:
  "plot_resources example_brewer [(1, 20, 150), (0, 10, 100)] ''GnBu'' \<noteq>
   plot_resources example_brewer [(0, 10, 100), (1, 20, 150)] ''GnBu''"
  by (simp add: plot_resources_def example_brewer_def example_GnBu_def getitem_def item_def Let_def)

text \<open>
  C8, as the code has it: the points of both series are in the order of the input,
  the point of a sample being its time less the least time against its value; the plot
  of a permutation of the samples is returned as well and has the same horizontal range
  and the same two vertical ranges.
\<close>

theorem plot_resources_permutation:
  assumes "plot_resources brewer results palette = Inr fig"
    and "mset results2 = mset results"
  shows "(\<exists>color0 color2.
            glyphs fig =
              [Line (map (\<lambda>(t, mem, cpu). t - Min (set (map (\<lambda>(t, mem, cpu). t) results))) results)
                 (map (\<lambda>(t, mem, cpu). cpu) results) color0 None ''% CPU'',
               Line (map (\<lambda>(t, mem, cpu). t - Min (set (map (\<lambda>(t, mem, cpu). t) results))) results)
                 (map (\<lambda>(t, mem, cpu). mem) results) color2 (Some ''memory'') ''Memory''])
         \<and> (\<exists>fig2. plot_resources brewer results2 palette = Inr fig2
               \<and> x_range fig2 = x_range fig \<and> y_range fig2 = y_range fig
               \<and> extra_y_ranges fig2 = extra_y_ranges fig)"
proof
  show "\<exists>color0 color2.
            glyphs fig =
              [Line (map (\<lambda>(t, mem, cpu). t - Min (set (map (\<lambda>(t, mem, cpu). t) results))) results)
                 (map (\<lambda>(t, mem, cpu). cpu) results) color0 None ''% CPU'',
               Line (map (\<lambda>(t, mem, cpu). t - Min (set (map (\<lambda>(t, mem, cpu). t) results))) results)
                 (map (\<lambda>(t, mem, cpu). mem) results) color2 (Some ''memory'') ''Memory'']"
    by (rule plot_resources_Inr(5) [OF assms(1)])
next
  have same: "set results2 = set results"
    using assms(2) by (rule mset_eq_setD)
  have ne: "results \<noteq> []"
    by (rule plot_resources_Inr(1) [OF assms(1)])
  with same have ne2: "results2 \<noteq> []"
    by auto
  obtain palette_lookup colors where
    "getitem brewer palette = Inr palette_lookup" "getitem palette_lookup 6 = Inr colors"
    "3 \<le> length colors"
    using assms(1) ne
    by (auto simp: plot_resources_def py_min_eq py_max_eq Let_def item_def
        split: sum.splits if_splits)
  with ne2 obtain fig2 where fig2: "plot_resources brewer results2 palette = Inr fig2"
    using plot_resources_returns by blast
  show "\<exists>fig2. plot_resources brewer results2 palette = Inr fig2
               \<and> x_range fig2 = x_range fig \<and> y_range fig2 = y_range fig
               \<and> extra_y_ranges fig2 = extra_y_ranges fig"
    using fig2 plot_resources_Inr(2-4) [OF fig2] plot_resources_Inr(2-4) [OF assms(1)] same
    by simp
qed

theorem plot_resources_permutation_witness:
  "\<exists>fig fig2.
     plot_resources example_brewer [(1, 20, 150), (0, 10, 100)] ''GnBu'' = Inr fig
     \<and> mset [(0, 10, 100), (1, 20, 150)] = mset [(1, 20, 150), (0, 10, 100 :: real) :: real \<times> real \<times> real]
     \<and> plot_resources example_brewer [(0, 10, 100), (1, 20, 150)] ''GnBu'' = Inr fig2
     \<and> x_range fig2 = x_range fig \<and> y_range fig2 = y_range fig
     \<and> extra_y_ranges fig2 = extra_y_ranges fig"
proof -
  obtain fig where
    fig: "plot_resources example_brewer [(1, 20, 150), (0, 10, 100)] ''GnBu'' = Inr fig"
    by (simp add: plot_resources_def example_brewer_def example_GnBu_def getitem_def item_def Let_def)
  have m: "mset [(0, 10, 100), (1, 20, 150)] = mset [(1, 20, 150), (0, 10, 100 :: real) :: real \<times> real \<times> real]"
    by simp
  from plot_resources_permutation [OF fig m] fig m show ?thesis
    by blast
qed

section \<open>Colours\<close>

text \<open>
  \<open>unique\<close> keeps one copy of every element; a dict built from pairs with different
  keys is the list of the pairs; a well-formed palette has an entry for its least size,
  its greatest size and every size between them.
\<close>

lemma set_unique_from: "set (unique_from seen xs) = set xs - set seen"
  by (induction seen xs rule: unique_from.induct) auto

lemma distinct_unique_from: "distinct (unique_from seen xs)"
  by (induction seen xs rule: unique_from.induct) (auto simp: set_unique_from)

lemma set_unique [simp]: "set (unique xs) = set xs"
  by (simp add: unique_def set_unique_from)

lemma distinct_unique [simp]: "distinct (unique xs)"
  by (simp add: unique_def distinct_unique_from)

lemma dict_set_fresh: "k \<notin> fst ` set d \<Longrightarrow> dict_set k v d = d @ [(k, v)]"
  by (induction d) auto

lemma dict_snoc: "dict (ps @ [(k, v)]) = dict_set k v (dict ps)"
  by (simp add: dict_def)

lemma dict_distinct: "distinct (map fst ps) \<Longrightarrow> dict ps = ps"
proof (induction ps rule: rev_induct)
  case Nil
  show ?case by (simp add: dict_def)
next
  case (snoc p ps)
  obtain k v where p: "p = (k, v)"
    by (cases p)
  from snoc have "dict ps = ps" and "k \<notin> fst ` set ps"
    by (auto simp: p)
  then show ?case
    by (simp add: p dict_snoc dict_set_fresh)
qed

lemma map_of_zip_index:
  "distinct us \<Longrightarrow> k < length us \<Longrightarrow> length us \<le> length cs \<Longrightarrow>
   map_of (zip us cs) (us ! k) = Some (cs ! k)"
proof (induction us arbitrary: cs k)
  case Nil
  then show ?case by simp
next
  case (Cons u us)
  then obtain c cs' where cs: "cs = c # cs'"
    by (cases cs) auto
  show ?case
  proof (cases k)
    case 0
    then show ?thesis by (simp add: cs)
  next
    case (Suc k')
    with Cons.prems have "us ! k' \<noteq> u"
      by auto
    with Cons Suc show ?thesis
      by (simp add: cs)
  qed
qed

lemma cycle_nth: "cs \<noteq> [] \<Longrightarrow> k < n \<Longrightarrow> cycle n cs ! k = cs ! (k mod length cs)"
  by (simp add: cycle_def)

lemma length_cycle: "cs \<noteq> [] \<Longrightarrow> length (cycle n cs) = n"
  by (simp add: cycle_def)

lemma wf_palette_lookup:
  assumes "wf_palette pl" and "k \<in> set (map fst pl)"
  shows "\<exists>cs. getitem pl k = Inr cs \<and> 0 < k \<and> length cs = k \<and> distinct cs"
proof -
  from assms(2) obtain cs0 where "(k, cs0) \<in> set pl"
    by auto
  then obtain cs where cs: "map_of pl k = Some cs"
    using weak_map_of_SomeI by fastforce
  then have mem: "(k, cs) \<in> set pl"
    by (rule map_of_SomeD)
  have "\<forall>x\<in>set pl. case x of (k, cs) \<Rightarrow> 0 < k \<and> length cs = k \<and> distinct cs"
    using assms(1) unfolding wf_palette_def list_all_iff by blast
  with mem have "0 < k \<and> length cs = k \<and> distinct cs"
    by blast
  with cs show ?thesis
    by (simp add: getitem_def)
qed

lemma wf_palette_sizes:
  assumes "wf_palette pl"
  shows "Min (set (map fst pl)) \<in> set (map fst pl)"
    and "Max (set (map fst pl)) \<in> set (map fst pl)"
    and "Min (set (map fst pl)) \<le> n \<Longrightarrow> n \<le> Max (set (map fst pl)) \<Longrightarrow> n \<in> set (map fst pl)"
proof -
  have ne: "set (map fst pl) \<noteq> {}"
    using assms by (simp add: wf_palette_def)
  show "Min (set (map fst pl)) \<in> set (map fst pl)"
    using ne by (intro Min_in) auto
  show "Max (set (map fst pl)) \<in> set (map fst pl)"
    using ne by (intro Max_in) auto
  show "n \<in> set (map fst pl)"
    if "Min (set (map fst pl)) \<le> n" and "n \<le> Max (set (map fst pl))"
  proof -
    have "n \<in> set [Min (set (map fst pl))..<Suc (Max (set (map fst pl)))]"
      using that by auto
    moreover have "\<forall>k\<in>set [Min (set (map fst pl))..<Suc (Max (set (map fst pl)))].
        k \<in> set (map fst pl)"
      using assms unfolding wf_palette_def list_all_iff by blast
    ultimately show ?thesis
      by blast
  qed
qed

lemma collect_getitem_zip:
  assumes "distinct us" and "length us \<le> length cs" and "set funcs \<subseteq> set us"
  shows "\<exists>colors. collect (map (\<lambda>n. getitem (dict (zip us cs)) n) funcs) = Inr colors
           \<and> length colors = length funcs
           \<and> (\<forall>i<length funcs. \<forall>k<length us. funcs ! i = us ! k \<longrightarrow> colors ! i = cs ! k)"
proof -
  have d: "dict (zip us cs) = zip us cs"
    using assms(1) by (intro dict_distinct) (simp add: map_fst_zip_take distinct_take)
  define g where "g f = the (map_of (zip us cs) f)" for f
  have "getitem (zip us cs) f = Inr (g f)" if "f \<in> set funcs" for f
  proof -
    from that assms(3) have "f \<in> set us"
      by auto
    then obtain k where "k < length us" "us ! k = f"
      by (auto simp: in_set_conv_nth)
    then show ?thesis
      using map_of_zip_index [OF assms(1) _ assms(2), of k] by (simp add: g_def getitem_def)
  qed
  then have "map (\<lambda>n. getitem (dict (zip us cs)) n) funcs = map Inr (map g funcs)"
    by (simp add: d)
  then have c: "collect (map (\<lambda>n. getitem (dict (zip us cs)) n) funcs) = Inr (map g funcs)"
    by (simp add: collect_Inr)
  have "map g funcs ! i = cs ! k" if "i < length funcs" "k < length us" "funcs ! i = us ! k" for i k
    using that map_of_zip_index [OF assms(1) that(2) assms(2)] by (simp add: g_def)
  with c show ?thesis
    by auto
qed

lemma get_colors_Inr:
  assumes pl: "getitem brewer palette = Inr pl" and wf: "wf_palette pl"
  obtains colors cs where "get_colors brewer palette funcs = Inr colors"
    and "length colors = length funcs"
    and "length (sort (unique funcs)) \<le> length cs"
    and "\<And>i k. i < length funcs \<Longrightarrow> k < length (sort (unique funcs)) \<Longrightarrow>
           funcs ! i = sort (unique funcs) ! k \<Longrightarrow> colors ! i = cs ! k"
    and "Max (set (map fst pl)) < length (sort (unique funcs)) \<Longrightarrow>
           \<exists>largest. getitem pl (Max (set (map fst pl))) = Inr largest
             \<and> length largest = Max (set (map fst pl)) \<and> largest \<noteq> []
             \<and> cs = cycle (length (sort (unique funcs))) largest"
    and "\<not> Max (set (map fst pl)) < length (sort (unique funcs)) \<Longrightarrow> distinct cs"
proof -
  define us where "us = sort (unique funcs)"
  define low where "low = Min (set (map fst pl))"
  define high where "high = Max (set (map fst pl))"
  have ne: "map fst pl \<noteq> []"
    using wf by (simp add: wf_palette_def)
  have us: "distinct us" "set funcs \<subseteq> set us"
    by (simp_all add: us_def)
  have "\<exists>cs. (if high < length us
              then map_sum id (cycle (length us)) (getitem pl high)
              else if length us < low then getitem pl low else getitem pl (length us)) = Inr cs
            \<and> length us \<le> length cs
            \<and> (if high < length us
                then \<exists>largest. getitem pl high = Inr largest \<and> length largest = high
                       \<and> 0 < length largest \<and> cs = cycle (length us) largest
                else distinct cs)"
  proof (cases "high < length us")
    case True
    obtain largest where "getitem pl high = Inr largest" "0 < high" "length largest = high"
      using wf_palette_lookup [OF wf wf_palette_sizes(2) [OF wf]] by (auto simp: high_def)
    with True show ?thesis
      by (auto simp: length_cycle)
  next
    case False
    show ?thesis
    proof (cases "length us < low")
      case True
      obtain cs where "getitem pl low = Inr cs" "length cs = low" "distinct cs"
        using wf_palette_lookup [OF wf wf_palette_sizes(1) [OF wf]] by (auto simp: low_def)
      with True False show ?thesis
        by auto
    next
      case nlow: False
      with False have "length us \<in> set (map fst pl)"
        by (intro wf_palette_sizes(3) [OF wf]) (simp_all add: low_def high_def)
      then obtain cs where "getitem pl (length us) = Inr cs" "length cs = length us" "distinct cs"
        using wf_palette_lookup [OF wf] by blast
      with nlow False show ?thesis
        by auto
    qed
  qed
  then obtain cs where cs:
    "(if high < length us
      then map_sum id (cycle (length us)) (getitem pl high)
      else if length us < low then getitem pl low else getitem pl (length us)) = Inr cs"
    "length us \<le> length cs"
    "if high < length us
     then \<exists>largest. getitem pl high = Inr largest \<and> length largest = high
            \<and> 0 < length largest \<and> cs = cycle (length us) largest
     else distinct cs"
    by blast
  obtain colors where colors:
    "collect (map (\<lambda>n. getitem (dict (zip us cs)) n) funcs) = Inr colors"
    "length colors = length funcs"
    "\<forall>i<length funcs. \<forall>k<length us. funcs ! i = us ! k \<longrightarrow> colors ! i = cs ! k"
    using collect_getitem_zip [OF us(1) cs(2) us(2)] by blast
  have low: "py_min (map fst pl) = Inr low"
    using ne by (simp add: py_min_eq low_def)
  have high: "py_max (map fst pl) = Inr high"
    using ne by (simp add: py_max_eq high_def)
  have result: "get_colors brewer palette funcs = Inr colors"
    unfolding get_colors_def Let_def us_def [symmetric] pl low high sum.case cs(1) colors(1)
    by (rule refl)
  have cyc: "\<exists>largest. getitem pl high = Inr largest \<and> length largest = high
      \<and> largest \<noteq> [] \<and> cs = cycle (length us) largest" if "high < length us"
    using cs(3) that by auto
  have dis: "distinct cs" if "\<not> high < length us"
    using cs(3) that by simp
  show thesis
  proof (rule that [of colors cs])
    show "get_colors brewer palette funcs = Inr colors"
      by (rule result)
    show "length colors = length funcs"
      by (rule colors(2))
    show "length (sort (unique funcs)) \<le> length cs"
      using cs(2) by (simp only: us_def)
    show "colors ! i = cs ! k"
      if "i < length funcs" "k < length (sort (unique funcs))"
        "funcs ! i = sort (unique funcs) ! k" for i k
      using colors(3) that unfolding us_def by blast
    show "\<exists>largest. getitem pl (Max (set (map fst pl))) = Inr largest
             \<and> length largest = Max (set (map fst pl)) \<and> largest \<noteq> []
             \<and> cs = cycle (length (sort (unique funcs))) largest"
      if "Max (set (map fst pl)) < length (sort (unique funcs))"
      using cyc that unfolding us_def high_def by blast
    show "distinct cs" if "\<not> Max (set (map fst pl)) < length (sort (unique funcs))"
      using dis that unfolding us_def high_def by blast
  qed
qed

lemma example_GnBu_wf: "wf_palette example_GnBu"
  by (simp add: wf_palette_def example_GnBu_def)

lemma example_GnBu_max: "Max (set (map fst example_GnBu)) = 6"
  by (simp add: example_GnBu_def)

lemma example_brewer_GnBu: "getitem example_brewer ''GnBu'' = Inr example_GnBu"
  by (simp add: getitem_def example_brewer_def)

text \<open>
  C4: for a palette of the table that is well formed, the colours are returned, one
  for each label; equal labels have equal colours; when the number of different labels is
  at most the greatest size of the palette, different labels have different colours; and
  when it is greater, the label at position \<open>k\<close> of the sorted different labels has the
  colour at position \<open>k mod high\<close> of the entry of the greatest size \<open>high\<close>, so the
  colours repeat with period \<open>high\<close> along the sorted labels.
\<close>

theorem get_colors_assignment:
  assumes "getitem brewer palette = Inr palette_lookup" and "wf_palette palette_lookup"
  shows "\<exists>colors.
           get_colors brewer palette funcs = Inr colors
           \<and> length colors = length funcs
           \<and> (\<forall>i<length funcs. \<forall>j<length funcs. funcs ! i = funcs ! j \<longrightarrow> colors ! i = colors ! j)
           \<and> (length (unique funcs) \<le> Max (set (map fst palette_lookup)) \<longrightarrow>
                (\<forall>i<length funcs. \<forall>j<length funcs.
                   colors ! i = colors ! j \<longrightarrow> funcs ! i = funcs ! j))
           \<and> (Max (set (map fst palette_lookup)) < length (unique funcs) \<longrightarrow>
                (\<exists>largest.
                   getitem palette_lookup (Max (set (map fst palette_lookup))) = Inr largest
                   \<and> length largest = Max (set (map fst palette_lookup))
                   \<and> (\<forall>i<length funcs. \<forall>k<length (unique funcs).
                         funcs ! i = sort (unique funcs) ! k \<longrightarrow>
                         colors ! i = largest ! (k mod Max (set (map fst palette_lookup))))))"
proof -
  let ?us = "sort (unique funcs)"
  let ?high = "Max (set (map fst palette_lookup))"
  have n: "length (unique funcs) = length ?us"
    by simp
  obtain colors cs where colors: "get_colors brewer palette funcs = Inr colors"
    and len: "length colors = length funcs"
    and cs: "length ?us \<le> length cs"
    and at: "\<And>i k. i < length funcs \<Longrightarrow> k < length ?us \<Longrightarrow> funcs ! i = ?us ! k \<Longrightarrow>
               colors ! i = cs ! k"
    and cyc: "?high < length ?us \<Longrightarrow>
               \<exists>largest. getitem palette_lookup ?high = Inr largest
                 \<and> length largest = ?high \<and> largest \<noteq> []
                 \<and> cs = cycle (length ?us) largest"
    and dis: "\<not> ?high < length ?us \<Longrightarrow> distinct cs"
  proof (rule get_colors_Inr [OF assms, where funcs = funcs], goal_cases)
    case (1 colors cs)
    from 1(2-7) show ?case
      by (rule 1(1))
  qed
  have pos: "\<exists>k<length ?us. funcs ! i = ?us ! k" if "i < length funcs" for i
  proof -
    from that have "funcs ! i \<in> set ?us"
      by simp
    then obtain k where "k < length ?us" "?us ! k = funcs ! i"
      unfolding in_set_conv_nth by blast
    then show ?thesis
      by auto
  qed
  have equal: "colors ! i = colors ! j"
    if "i < length funcs" "j < length funcs" "funcs ! i = funcs ! j" for i j
  proof -
    from pos [OF that(1)] obtain k where k: "k < length ?us" "funcs ! i = ?us ! k"
      by blast
    from k that(3) have "funcs ! j = ?us ! k"
      by simp
    with at [OF that(1) k] at [OF that(2) k(1)] show ?thesis
      by simp
  qed
  have different: "funcs ! i = funcs ! j"
    if "length ?us \<le> ?high" "i < length funcs" "j < length funcs" "colors ! i = colors ! j" for i j
  proof -
    from pos [OF that(2)] obtain k where k: "k < length ?us" "funcs ! i = ?us ! k"
      by blast
    from pos [OF that(3)] obtain l where l: "l < length ?us" "funcs ! j = ?us ! l"
      by blast
    from that(1) have "distinct cs"
      by (intro dis) simp
    moreover have "cs ! k = cs ! l"
      using at [OF that(2) k] at [OF that(3) l] that(4) by simp
    moreover have "k < length cs" "l < length cs"
      using k(1) l(1) cs by simp_all
    ultimately have "k = l"
      by (simp add: nth_eq_iff_index_eq)
    with k l show ?thesis
      by simp
  qed
  have cyclic: "\<exists>largest. getitem palette_lookup ?high = Inr largest \<and> length largest = ?high
      \<and> (\<forall>i<length funcs. \<forall>k<length ?us. funcs ! i = ?us ! k \<longrightarrow>
            colors ! i = largest ! (k mod ?high))"
    if "?high < length ?us"
  proof -
    from cyc [OF that] obtain largest where largest: "getitem palette_lookup ?high = Inr largest"
      "length largest = ?high" "largest \<noteq> []" "cs = cycle (length ?us) largest"
      by blast
    have "colors ! i = largest ! (k mod ?high)"
      if "i < length funcs" "k < length ?us" "funcs ! i = ?us ! k" for i k
      using at [OF that] cycle_nth [OF largest(3) that(2)] largest(2,4) by simp
    then have "\<forall>i<length funcs. \<forall>k<length ?us. funcs ! i = ?us ! k \<longrightarrow>
            colors ! i = largest ! (k mod ?high)"
      by blast
    with largest(1,2) show ?thesis
      by blast
  qed
  have "get_colors brewer palette funcs = Inr colors
           \<and> length colors = length funcs
           \<and> (\<forall>i<length funcs. \<forall>j<length funcs. funcs ! i = funcs ! j \<longrightarrow> colors ! i = colors ! j)
           \<and> (length ?us \<le> ?high \<longrightarrow>
                (\<forall>i<length funcs. \<forall>j<length funcs.
                   colors ! i = colors ! j \<longrightarrow> funcs ! i = funcs ! j))
           \<and> (?high < length ?us \<longrightarrow>
                (\<exists>largest.
                   getitem palette_lookup ?high = Inr largest
                   \<and> length largest = ?high
                   \<and> (\<forall>i<length funcs. \<forall>k<length ?us.
                         funcs ! i = ?us ! k \<longrightarrow>
                         colors ! i = largest ! (k mod ?high))))"
  proof (intro conjI impI allI)
    show "get_colors brewer palette funcs = Inr colors"
      by (rule colors)
    show "length colors = length funcs"
      by (rule len)
    show "colors ! i = colors ! j"
      if "i < length funcs" "j < length funcs" "funcs ! i = funcs ! j" for i j
      using that by (rule equal)
    show "funcs ! i = funcs ! j"
      if "length ?us \<le> ?high" "i < length funcs" "j < length funcs" "colors ! i = colors ! j" for i j
      using that by (rule different)
    show "\<exists>largest. getitem palette_lookup ?high = Inr largest \<and> length largest = ?high
      \<and> (\<forall>i<length funcs. \<forall>k<length ?us. funcs ! i = ?us ! k \<longrightarrow>
            colors ! i = largest ! (k mod ?high))"
      if "?high < length ?us"
      using that by (rule cyclic)
  qed
  then show ?thesis
    unfolding n by (intro exI [where x = colors])
qed

theorem get_colors_assignment_witness:
  "getitem example_brewer ''GnBu'' = Inr example_GnBu \<and> wf_palette example_GnBu
   \<and> (\<exists>colors. get_colors example_brewer ''GnBu'' [''mul'', ''add'', ''mul''] = Inr colors
         \<and> length colors = 3 \<and> colors ! 0 = colors ! 2 \<and> colors ! 0 \<noteq> colors ! 1)
   \<and> (\<exists>colors. get_colors example_brewer ''GnBu'' [1, 2, 3, 4, 5, 6, 7 :: nat] = Inr colors
         \<and> length colors = 7 \<and> colors ! 0 = colors ! 6)"
proof -
  let ?F = "[''mul'', ''add'', ''mul'']"
  let ?G = "[1, 2, 3, 4, 5, 6, 7 :: nat]"
  have u3: "length (unique ?F) = 2"
    by (simp add: unique_def)
  note F = get_colors_assignment [OF example_brewer_GnBu example_GnBu_wf, of ?F]
  obtain colors where 1: "get_colors example_brewer ''GnBu'' ?F = Inr colors"
    "length colors = length ?F"
    "\<forall>i<length ?F. \<forall>j<length ?F. ?F ! i = ?F ! j \<longrightarrow> colors ! i = colors ! j"
    "length (unique ?F) \<le> Max (set (map fst example_GnBu)) \<longrightarrow>
       (\<forall>i<length ?F. \<forall>j<length ?F. colors ! i = colors ! j \<longrightarrow> ?F ! i = ?F ! j)"
  proof -
    from F show ?thesis
      by (elim exE conjE) (rule that)
  qed
  from 1(3) [rule_format, of 0 2] have a: "colors ! 0 = colors ! 2"
    by simp
  have "length (unique ?F) \<le> Max (set (map fst example_GnBu))"
    unfolding u3 example_GnBu_max by simp
  with 1(4) have d: "\<forall>i<length ?F. \<forall>j<length ?F. colors ! i = colors ! j \<longrightarrow> ?F ! i = ?F ! j"
    by (rule mp)
  from d [rule_format, of 0 1] have b: "colors ! 0 \<noteq> colors ! 1"
    by auto
  have u7: "unique ?G = ?G"
    by (simp add: unique_def)
  have s7: "sort ?G = ?G"
    by simp
  note G = get_colors_assignment [OF example_brewer_GnBu example_GnBu_wf, of ?G]
  obtain colors2 where 2: "get_colors example_brewer ''GnBu'' ?G = Inr colors2"
    "length colors2 = length ?G"
    "Max (set (map fst example_GnBu)) < length (unique ?G) \<longrightarrow>
       (\<exists>largest.
          getitem example_GnBu (Max (set (map fst example_GnBu))) = Inr largest
          \<and> length largest = Max (set (map fst example_GnBu))
          \<and> (\<forall>i<length ?G. \<forall>k<length (unique ?G).
                ?G ! i = sort (unique ?G) ! k \<longrightarrow>
                colors2 ! i = largest ! (k mod Max (set (map fst example_GnBu)))))"
  proof -
    from G show ?thesis
      by (elim exE conjE) (rule that)
  qed
  have "Max (set (map fst example_GnBu)) < length (unique ?G)"
    unfolding u7 example_GnBu_max by simp
  with 2(3) have "\<exists>largest.
          getitem example_GnBu (Max (set (map fst example_GnBu))) = Inr largest
          \<and> length largest = Max (set (map fst example_GnBu))
          \<and> (\<forall>i<length ?G. \<forall>k<length (unique ?G).
                ?G ! i = sort (unique ?G) ! k \<longrightarrow>
                colors2 ! i = largest ! (k mod Max (set (map fst example_GnBu))))"
    by (rule mp)
  then obtain largest where "getitem example_GnBu (Max (set (map fst example_GnBu))) = Inr largest
          \<and> length largest = Max (set (map fst example_GnBu))
          \<and> (\<forall>i<length ?G. \<forall>k<length (unique ?G).
                ?G ! i = sort (unique ?G) ! k \<longrightarrow>
                colors2 ! i = largest ! (k mod Max (set (map fst example_GnBu))))" ..
  then have l: "\<forall>i<length ?G. \<forall>k<length (unique ?G). ?G ! i = sort (unique ?G) ! k \<longrightarrow>
          colors2 ! i = largest ! (k mod Max (set (map fst example_GnBu)))"
    by (elim conjE)
  from l [rule_format, of 0 0] have "colors2 ! 0 = largest ! 0"
    unfolding u7 s7 example_GnBu_max by simp
  moreover from l [rule_format, of 6 6] have "colors2 ! 6 = largest ! 0"
    unfolding u7 s7 example_GnBu_max by simp
  ultimately have c: "colors2 ! 0 = colors2 ! 6"
    by simp
  from 1(1,2) a b have "\<exists>colors. get_colors example_brewer ''GnBu'' ?F = Inr colors
         \<and> length colors = 3 \<and> colors ! 0 = colors ! 2 \<and> colors ! 0 \<noteq> colors ! 1"
    by (intro exI [where x = colors]) simp
  moreover from 2(1,2) c have "\<exists>colors. get_colors example_brewer ''GnBu'' ?G = Inr colors
         \<and> length colors = 7 \<and> colors ! 0 = colors ! 6"
    by (intro exI [where x = colors2]) simp
  ultimately show ?thesis
    using example_brewer_GnBu example_GnBu_wf by (intro conjI)
qed

section \<open>The ranks of the workers\<close>

text \<open>
  \<open>groupby\<close> lists the keys in order of first appearance, each with its items in the
  order of the input, so \<open>timings\<close> lists each worker once with its durations.
\<close>

lemma unique_from_snoc:
  "unique_from seen (xs @ [x]) =
     (if x \<in> set seen \<union> set xs then unique_from seen xs else unique_from seen xs @ [x])"
  by (induction seen xs rule: unique_from.induct) auto

lemma unique_snoc:
  "unique (xs @ [x]) = (if x \<in> set xs then unique xs else unique xs @ [x])"
  by (simp add: unique_def unique_from_snoc)

lemma group_add_map:
  "distinct us \<Longrightarrow>
   group_add k x (map (\<lambda>w. (w, g w)) us) =
     (if k \<in> set us then map (\<lambda>w. (w, if w = k then g w @ [x] else g w)) us
      else map (\<lambda>w. (w, g w)) us @ [(k, [x])])"
  by (induction us) auto

lemma groupby_snoc: "groupby f (xs @ [x]) = group_add (f x) x (groupby f xs)"
  by (simp add: groupby_def)

lemma groupby_eq:
  "groupby f xs = map (\<lambda>w. (w, filter (\<lambda>x. f x = w) xs)) (unique (map f xs))"
proof (induction xs rule: rev_induct)
  case Nil
  show ?case by (simp add: groupby_def unique_def)
next
  case (snoc x xs)
  show ?case
  proof (cases "f x \<in> set (map f xs)")
    case True
    then have "f x \<in> set (unique (map f xs))"
      by simp
    with True show ?thesis
      by (simp add: groupby_snoc snoc.IH group_add_map unique_snoc)
  next
    case False
    then have n: "f x \<notin> set (unique (map f xs))"
      by simp
    have "\<forall>y\<in>set xs. f y \<noteq> f x"
      using False by (metis image_eqI set_map)
    then have "filter (\<lambda>y. f y = f x) xs = []"
      by (simp add: filter_empty_conv)
    moreover have "map (\<lambda>w. (w, if f x = w then filter (\<lambda>y. f y = w) xs @ [x]
                                   else filter (\<lambda>y. f y = w) xs)) (unique (map f xs))
        = map (\<lambda>w. (w, filter (\<lambda>y. f y = w) xs)) (unique (map f xs))"
      using n by (intro map_cong) auto
    ultimately show ?thesis
      using False n by (auto simp: groupby_snoc snoc.IH group_add_map unique_snoc)
  qed
qed

lemma timings_eq:
  "timings results =
     map (\<lambda>w. (w, durations results w)) (unique (map worker_id results))"
proof -
  have "map (\<lambda>(k, v). (k, map (\<lambda>i. end_time i - start_time i) v)) (groupby worker_id results)
      = map (\<lambda>w. (w, durations results w)) (unique (map worker_id results))"
    by (simp add: groupby_eq durations_def comp_def)
  moreover have "distinct (map fst (map (\<lambda>w. (w, durations results w))
      (unique (map worker_id results))))"
    by (simp add: comp_def)
  ultimately show ?thesis
    by (simp add: timings_def dict_distinct)
qed

text \<open>
  A stable sort in descending order: of two elements the one with the greater key comes
  first, and of two elements with equal keys the one that was first in the input.
\<close>

lemma before_Cons: "before xs a b \<Longrightarrow> before (x # xs) a b"
proof -
  assume "before xs a b"
  then obtain i j where "j < length xs" "i < j" "xs ! i = a" "xs ! j = b"
    by (auto simp: before_def)
  then have "Suc j < length (x # xs)" "Suc i < Suc j" "(x # xs) ! Suc i = a" "(x # xs) ! Suc j = b"
    by simp_all
  then show ?thesis
    unfolding before_def by blast
qed

lemma before_head: "y \<in> set xs \<Longrightarrow> before (x # xs) x y"
proof -
  assume "y \<in> set xs"
  then obtain j where "j < length xs" "xs ! j = y"
    by (auto simp: in_set_conv_nth)
  then have "Suc j < length (x # xs)" "0 < Suc j" "(x # xs) ! 0 = x" "(x # xs) ! Suc j = y"
    by simp_all
  then show ?thesis
    unfolding before_def by blast
qed

lemma before_rev_imp: "before (rev xs) a b \<Longrightarrow> before xs b a"
proof -
  assume "before (rev xs) a b"
  then obtain i j where ij: "j < length xs" "i < j" "rev xs ! i = a" "rev xs ! j = b"
    by (auto simp: before_def)
  then have "xs ! (length xs - Suc i) = a" "xs ! (length xs - Suc j) = b"
    by (simp_all add: rev_nth)
  moreover from ij have "length xs - Suc i < length xs" "length xs - Suc j < length xs - Suc i"
    by auto
  ultimately show ?thesis
    unfolding before_def by blast
qed

lemma sorted_wrt_insort_key:
  assumes "sorted_wrt Q ys" and "sorted (map f ys)"
    and "\<And>y. y \<in> set ys \<Longrightarrow> f y < f x \<Longrightarrow> Q y x"
    and "\<And>y. y \<in> set ys \<Longrightarrow> f x \<le> f y \<Longrightarrow> Q x y"
  shows "sorted_wrt Q (insort_key f x ys)"
  using assms
proof (induction ys)
  case Nil
  show ?case by simp
next
  case (Cons y ys)
  show ?case
  proof (cases "f x \<le> f y")
    case True
    have "Q x z" if "z \<in> set (y # ys)" for z
    proof -
      from that Cons.prems(2) have "f y \<le> f z"
        by auto
      with True have "f x \<le> f z"
        by simp
      with that show ?thesis
        by (rule Cons.prems(4))
    qed
    with True Cons.prems(1) show ?thesis
      by simp
  next
    case False
    then have "Q y x"
      by (intro Cons.prems(3)) simp_all
    moreover have "sorted_wrt Q (insort_key f x ys)"
      using Cons.prems by (intro Cons.IH) simp_all
    ultimately show ?thesis
      using False Cons.prems(1) by (simp add: set_insort_key)
  qed
qed

lemma sort_key_order:
  "sorted_wrt (\<lambda>x y. f x < f y \<or> (f x = f y \<and> before xs x y)) (sort_key f xs)"
proof (induction xs)
  case Nil
  show ?case by simp
next
  case (Cons x xs)
  let ?Q = "\<lambda>a b. f a < f b \<or> (f a = f b \<and> before (x # xs) a b)"
  have "sorted_wrt ?Q (sort_key f xs)"
    using Cons.IH by (rule sorted_wrt_mono_rel [rotated]) (auto intro: before_Cons)
  moreover have "sorted (map f (sort_key f xs))"
    by (rule sorted_sort_key)
  moreover have "?Q y x" if "y \<in> set (sort_key f xs)" "f y < f x" for y
    using that by simp
  moreover have "?Q x y" if "y \<in> set (sort_key f xs)" "f x \<le> f y" for y
    using that by (auto intro: before_head)
  ultimately have "sorted_wrt ?Q (insort_key f x (sort_key f xs))"
    by (rule sorted_wrt_insort_key)
  then show ?case
    by simp
qed

lemma sorted_reverse_order:
  "sorted_wrt (\<lambda>x y. f y < f x \<or> (f x = f y \<and> before xs x y)) (sorted_reverse f xs)"
proof -
  have "sorted_wrt (\<lambda>x y. f x < f y \<or> (f x = f y \<and> before (rev xs) x y)) (sort_key f (rev xs))"
    by (rule sort_key_order)
  then have "sorted_wrt (\<lambda>x y. f x < f y \<or> (f y = f x \<and> before xs y x)) (sort_key f (rev xs))"
    by (rule sorted_wrt_mono_rel [rotated]) (auto dest: before_rev_imp)
  then show ?thesis
    by (simp add: sorted_reverse_def sorted_wrt_rev)
qed

lemma set_sorted_reverse: "set (sorted_reverse f xs) = set xs"
  by (simp add: sorted_reverse_def)

lemma length_sorted_reverse: "length (sorted_reverse f xs) = length xs"
  by (simp add: sorted_reverse_def)

lemma distinct_sorted_reverse: "distinct (sorted_reverse f xs) = distinct xs"
  by (simp add: sorted_reverse_def)

text \<open>\<open>id_lk\<close> numbers the sorted workers from 0.\<close>

lemma distinct_fst_sorted_reverse:
  assumes "distinct (map fst xs)"
  shows "distinct (map fst (sorted_reverse f xs))"
proof -
  from assms have "distinct xs" "inj_on fst (set xs)"
    by (simp_all add: distinct_map)
  then show ?thesis
    by (simp add: distinct_map set_sorted_reverse distinct_sorted_reverse)
qed

lemma distinct_fst_timings: "distinct (map fst (timings results))"
  by (simp add: timings_eq comp_def)

lemma id_lk_eq:
  "id_lk results =
     map (\<lambda>(n, t). (fst t, n)) (enumerate 0 (sorted_reverse snd (timings results)))"
proof -
  have "map fst (map (\<lambda>(n, t). (fst t, n)) (enumerate 0 (sorted_reverse snd (timings results))))
      = map fst (sorted_reverse snd (timings results))"
  proof -
    have "map fst (map (\<lambda>(n, t). (fst t, n)) (enumerate 0 (sorted_reverse snd (timings results))))
        = map fst (map snd (enumerate 0 (sorted_reverse snd (timings results))))"
      by (simp add: case_prod_unfold comp_def del: map_snd_enumerate)
    then show ?thesis
      by (simp only: map_snd_enumerate)
  qed
  then have "distinct (map fst (map (\<lambda>(n, t). (fst t, n))
      (enumerate 0 (sorted_reverse snd (timings results)))))"
    by (simp only: distinct_fst_sorted_reverse [OF distinct_fst_timings])
  then show ?thesis
    unfolding id_lk_def by (rule dict_distinct)
qed

lemma length_id_lk: "length (id_lk results) = length (unique (map worker_id results))"
  by (simp add: id_lk_eq length_sorted_reverse timings_eq)

lemma id_lk_nth:
  assumes "i < length (unique (map worker_id results))"
  shows "id_lk results ! i = (fst (sorted_reverse snd (timings results) ! i), i)"
  using assms by (simp add: id_lk_eq length_sorted_reverse timings_eq nth_enumerate_eq)

lemma map_fst_id_lk: "map fst (id_lk results) = map fst (sorted_reverse snd (timings results))"
  by (rule nth_equalityI)
    (simp_all add: length_id_lk length_sorted_reverse timings_eq id_lk_nth)

lemma map_snd_id_lk: "map snd (id_lk results) = [0..<length (unique (map worker_id results))]"
  by (rule nth_equalityI) (simp_all add: length_id_lk id_lk_nth)

lemma distinct_fst_id_lk: "distinct (map fst (id_lk results))"
  unfolding map_fst_id_lk by (rule distinct_fst_sorted_reverse [OF distinct_fst_timings])

lemma set_fst_id_lk: "set (map fst (id_lk results)) = worker_id ` set results"
proof -
  have "set (map fst (id_lk results)) = fst ` set (timings results)"
    unfolding map_fst_id_lk by (simp add: set_sorted_reverse)
  also have "\<dots> = set (unique (map worker_id results))"
    by (force simp: timings_eq)
  finally show ?thesis
    by simp
qed

lemma map_of_id_lk:
  assumes "map_of (id_lk results) a = Some i"
  shows "i < length (unique (map worker_id results))"
    and "sorted_reverse snd (timings results) ! i = (a, durations results a)"
proof -
  from assms have "(a, i) \<in> set (id_lk results)"
    by (rule map_of_SomeD)
  then obtain n where n: "n < length (id_lk results)" "id_lk results ! n = (a, i)"
    by (auto simp: in_set_conv_nth)
  then have "n < length (unique (map worker_id results))"
    by (simp add: length_id_lk)
  with n(2) have i: "n = i" and a: "fst (sorted_reverse snd (timings results) ! i) = a"
    by (auto simp: id_lk_nth)
  with \<open>n < length (unique (map worker_id results))\<close>
  show len: "i < length (unique (map worker_id results))"
    by simp
  then have "sorted_reverse snd (timings results) ! i \<in> set (sorted_reverse snd (timings results))"
    by (simp add: length_sorted_reverse timings_eq)
  then have "sorted_reverse snd (timings results) ! i \<in> set (timings results)"
    by (simp add: set_sorted_reverse)
  then obtain w where "sorted_reverse snd (timings results) ! i = (w, durations results w)"
    by (auto simp: timings_eq)
  with a show "sorted_reverse snd (timings results) ! i = (a, durations results a)"
    by simp
qed

lemma getitem_id_lk:
  assumes "r \<in> set results"
  shows "\<exists>k. getitem (id_lk results) (worker_id r) = Inr k"
proof -
  from assms have "worker_id r \<in> set (map fst (id_lk results))"
    unfolding set_fst_id_lk by (rule imageI)
  then obtain k where "map_of (id_lk results) (worker_id r) = Some k"
    by (metis map_of_eq_None_iff not_Some_eq set_map)
  then show ?thesis
    by (simp add: getitem_def)
qed

lemma before_timings:
  assumes "before (timings results) (a, x) (b, y)"
  shows "before (unique (map worker_id results)) a b"
proof -
  let ?U = "unique (map worker_id results)"
  from assms obtain i j where ij: "j < length ?U" "i < j"
    "timings results ! i = (a, x)" "timings results ! j = (b, y)"
    by (auto simp: before_def timings_eq)
  then have "?U ! i = a" "?U ! j = b"
    by (simp_all add: timings_eq)
  with ij(1,2) show ?thesis
    unfolding before_def by blast
qed

lemma id_lk_order:
  assumes "map_of (id_lk results) a = Some i" and "map_of (id_lk results) b = Some j"
    and "i < j"
  shows "durations results b < durations results a
         \<or> (durations results a = durations results b
             \<and> before (unique (map worker_id results)) a b)"
proof -
  let ?S = "sorted_reverse snd (timings results)"
  have "j < length ?S"
    using map_of_id_lk(1) [OF assms(2)] by (simp add: length_sorted_reverse timings_eq)
  with sorted_reverse_order [of snd "timings results"] assms(3)
  have "snd (?S ! j) < snd (?S ! i)
      \<or> (snd (?S ! i) = snd (?S ! j) \<and> before (timings results) (?S ! i) (?S ! j))"
    by (rule sorted_wrt_nth_less)
  then show ?thesis
    unfolding map_of_id_lk(2) [OF assms(1)] map_of_id_lk(2) [OF assms(2)]
    by (auto dest: before_timings)
qed

text \<open>
  The order \<open>ahead\<close> is asymmetric, and the rank of a worker is the number of workers
  ahead of it.
\<close>

lemma before_asym:
  assumes "distinct xs" and "before xs a b"
  shows "\<not> before xs b a"
proof
  assume "before xs b a"
  then obtain i j where ij: "j < length xs" "i < j" "xs ! i = b" "xs ! j = a"
    by (auto simp: before_def)
  from assms(2) obtain k l where kl: "l < length xs" "k < l" "xs ! k = a" "xs ! l = b"
    by (auto simp: before_def)
  from ij kl have "xs ! j = xs ! k" "xs ! i = xs ! l"
    by simp_all
  moreover from ij kl have "j < length xs" "k < length xs" "i < length xs" "l < length xs"
    by simp_all
  ultimately have "j = k" "i = l"
    using assms(1) by (simp_all add: nth_eq_iff_index_eq)
  with ij(2) kl(2) show False
    by simp
qed

lemma ahead_asym:
  assumes "ahead results a b"
  shows "\<not> ahead results b a"
proof
  assume "ahead results b a"
  with assms have "before (unique (map worker_id results)) a b"
    "before (unique (map worker_id results)) b a"
    by (auto simp: ahead_def)
  then show False
    using before_asym [of "unique (map worker_id results)" a b] by simp
qed

lemma filter_take:
  assumes "i \<le> length xs" and "\<And>k. k < length xs \<Longrightarrow> P (xs ! k) \<longleftrightarrow> k < i"
  shows "filter P xs = take i xs"
proof -
  have "\<forall>x\<in>set (take i xs). P x"
  proof
    fix x
    assume "x \<in> set (take i xs)"
    then obtain k where "k < length (take i xs)" "take i xs ! k = x"
      by (auto simp: in_set_conv_nth)
    with assms show "P x"
      by auto
  qed
  moreover have "\<forall>x\<in>set (drop i xs). \<not> P x"
  proof
    fix x
    assume "x \<in> set (drop i xs)"
    then obtain k where k: "k < length (drop i xs)" "drop i xs ! k = x"
      by (auto simp: in_set_conv_nth)
    then have "i + k < length xs" "xs ! (i + k) = x"
      using assms(1) by auto
    with assms(2) [of "i + k"] show "\<not> P x"
      by simp
  qed
  ultimately have "filter P (take i xs @ drop i xs) = take i xs"
    unfolding filter_append by (simp add: filter_empty_conv filter_id_conv)
  then show ?thesis
    by simp
qed

lemma map_of_id_lk_nth:
  assumes "k < length (unique (map worker_id results))"
  shows "map_of (id_lk results) (fst (sorted_reverse snd (timings results) ! k)) = Some k"
proof -
  from assms have "id_lk results ! k \<in> set (id_lk results)"
    by (simp add: length_id_lk)
  then have "(fst (sorted_reverse snd (timings results) ! k), k) \<in> set (id_lk results)"
    by (simp add: id_lk_nth [OF assms])
  then show ?thesis
    using distinct_fst_id_lk [of results] by simp
qed

lemma id_lk_count:
  assumes "map_of (id_lk results) a = Some i"
  shows "length (filter (\<lambda>w. ahead results w a) (unique (map worker_id results))) = i"
proof -
  let ?U = "unique (map worker_id results)"
  let ?S = "sorted_reverse snd (timings results)"
  let ?P = "\<lambda>w. ahead results w a"
  have len: "length (map fst ?S) = length ?U"
    by (simp add: length_sorted_reverse timings_eq)
  have i: "i < length ?U" and at: "?S ! i = (a, durations results a)"
    using map_of_id_lk [OF assms] by simp_all
  have dS: "distinct (map fst ?S)"
    by (rule distinct_fst_sorted_reverse [OF distinct_fst_timings])
  have sS: "set (map fst ?S) = set ?U"
    using set_fst_id_lk [of results] unfolding map_fst_id_lk by simp
  have "length (filter ?P ?U) = card ({w. ?P w} \<inter> set ?U)"
    by (rule distinct_length_filter) simp
  also have "\<dots> = card ({w. ?P w} \<inter> set (map fst ?S))"
    by (simp only: sS)
  also have "\<dots> = length (filter ?P (map fst ?S))"
    by (rule distinct_length_filter [OF dS, symmetric])
  also have "filter ?P (map fst ?S) = take i (map fst ?S)"
  proof (rule filter_take)
    show "i \<le> length (map fst ?S)"
      using i len by simp
    show "?P (map fst ?S ! k) \<longleftrightarrow> k < i" if "k < length (map fst ?S)" for k
    proof -
      from that len have k: "k < length ?U"
        by simp
      then have w: "map fst ?S ! k = fst (?S ! k)"
        by (simp add: length_sorted_reverse timings_eq)
      note mk = map_of_id_lk_nth [OF k]
      show ?thesis
      proof (cases "k < i")
        case True
        from id_lk_order [OF mk assms True] have "ahead results (fst (?S ! k)) a"
          by (simp add: ahead_def)
        with True w show ?thesis
          by simp
      next
        case False
        have "\<not> ahead results (fst (?S ! k)) a"
        proof (cases "k = i")
          case True
          then have "fst (?S ! k) = a"
            by (simp add: at)
          then show ?thesis
            using ahead_asym [of results a a] by auto
        next
          case ne: False
          with False have "i < k"
            by simp
          from id_lk_order [OF assms mk this] have "ahead results a (fst (?S ! k))"
            by (simp add: ahead_def)
          then show ?thesis
            by (rule ahead_asym)
        qed
        with False w show ?thesis
          by simp
      qed
    qed
  qed
  also have "length (take i (map fst ?S)) = i"
    using i len by simp
  finally show ?thesis .
qed

text \<open>
  C2: the workers are claimed to be ranked by the sum of their durations. Line 182
  keeps for each worker the list of its durations and line 184 sorts by that list, which
  Python compares lexicographically: worker 2 with the durations \<open>[2]\<close> is ranked before
  worker 1 with the durations \<open>[1, 1, 1]\<close>, although worker 1 was busy for longer.
\<close>

theorem id_lk_not_by_total:
  "id_lk example_busy = [(2, 0), (1, 1)]
   \<and> sum_list (durations example_busy 1) = 3
   \<and> sum_list (durations example_busy 2) = 2"
  by (simp add: id_lk_def timings_def groupby_def dict_def sorted_reverse_def durations_def
      example_busy_def example_task_def enumerate_eq_zip)

text \<open>
  C2, as the code has it: the ranks are the numbers from 0 to \<open>N - 1\<close>, one for each
  of the \<open>N\<close> different workers of the input; a worker with a smaller rank has the greater
  list of durations in the lexicographic order, or the same list as the other worker and
  an earlier first appearance in the input.
\<close>

theorem id_lk_ranking:
  "map snd (id_lk results) = [0..<length (unique (map worker_id results))]
   \<and> set (map fst (id_lk results)) = worker_id ` set results
   \<and> distinct (map fst (id_lk results))
   \<and> (\<forall>a b i j.
         map_of (id_lk results) a = Some i \<longrightarrow> map_of (id_lk results) b = Some j \<longrightarrow> i < j \<longrightarrow>
         durations results b < durations results a
         \<or> (durations results a = durations results b
             \<and> before (unique (map worker_id results)) a b))"
  using map_snd_id_lk set_fst_id_lk distinct_fst_id_lk id_lk_order by blast

theorem id_lk_ranking_witness:
  "map_of (id_lk example_ties) 5 = Some 0 \<and> map_of (id_lk example_ties) 3 = Some 1
   \<and> map_of (id_lk example_ties) 7 = Some 2
   \<and> durations example_ties 5 = durations example_ties 3
   \<and> before (unique (map worker_id example_ties)) 5 3
   \<and> durations example_ties 7 < durations example_ties 3"
proof -
  have lk: "id_lk example_ties = [(5, 0), (3, 1), (7, 2)]"
    by (simp add: id_lk_def timings_def groupby_def dict_def sorted_reverse_def
        example_ties_def example_task_def enumerate_eq_zip)
  have d: "durations example_ties 5 = [2]" "durations example_ties 3 = [2]"
    "durations example_ties 7 = [1, 1]"
    by (simp_all add: durations_def example_ties_def example_task_def)
  note r = id_lk_ranking [of example_ties, THEN conjunct2, THEN conjunct2, THEN conjunct2,
      rule_format]
  have "durations example_ties 3 < durations example_ties 5
      \<or> (durations example_ties 5 = durations example_ties 3
          \<and> before (unique (map worker_id example_ties)) 5 3)"
    by (rule r [of 5 0 3 1]) (simp_all add: lk)
  then have "before (unique (map worker_id example_ties)) 5 3"
    by (simp add: d)
  moreover have "durations example_ties 7 < durations example_ties 3
      \<or> (durations example_ties 3 = durations example_ties 7
          \<and> before (unique (map worker_id example_ties)) 3 7)"
    by (rule r [of 3 1 7 2]) (simp_all add: lk)
  then have "durations example_ties 7 < durations example_ties 3"
    by (simp add: d)
  ultimately show ?thesis
    by (simp add: lk d)
qed

section \<open>The task plot\<close>

text \<open>
  A list comprehension returns when each of its elements does. What \<open>plot_tasks\<close>
  returns is made of the results of its steps, and it returns when the palette is well
  formed and every task has a summary.
\<close>

lemma collect_map_nth:
  assumes "collect (map f xs) = Inr vs"
  shows "length vs = length xs" and "i < length xs \<Longrightarrow> f (xs ! i) = Inr (vs ! i)"
proof -
  from assms have eq: "map f xs = map Inr vs"
    by (simp add: collect_Inr)
  then show len: "length vs = length xs"
    by (metis length_map)
  show "f (xs ! i) = Inr (vs ! i)" if "i < length xs"
  proof -
    from eq have "map f xs ! i = map Inr vs ! i"
      by (rule arg_cong)
    with that len show ?thesis
      by simp
  qed
qed

lemma collect_returns:
  assumes "\<And>x. x \<in> set xs \<Longrightarrow> \<exists>v. f x = Inr v"
  shows "\<exists>vs. collect (map f xs) = Inr vs"
  using assms
proof (induction xs)
  case Nil
  show ?case by simp
next
  case (Cons x xs)
  then obtain v vs where "f x = Inr v" "collect (map f xs) = Inr vs"
    by (metis list.set_intros(1,2))
  then show ?case
    by simp
qed

lemma plot_tasks_Inr:
  assumes "plot_tasks brewer results dsk palette label_size = Inr fig"
  obtains ys funcs colors where "results \<noteq> []"
    and "collect (map (\<lambda>i. map_sum id (\<lambda>n. n + 1) (getitem (id_lk results) i))
           (map worker_id results)) = Inr ys"
    and "collect (map (\<lambda>i. pprint_task i (map fst dsk) label_size) (map task results))
           = Inr funcs"
    and "get_colors brewer palette funcs = Inr colors"
    and "glyphs fig =
           [Rect \<lparr>data_width = map (\<lambda>r. end_time r - start_time r) results,
                  data_x = map (\<lambda>r. (end_time r - start_time r) / 2 + start_time r
                                      - Min (set (map start_time results))) results,
                  data_y = ys, data_function = funcs, data_color = colors,
                  data_key = map key results\<rparr>]"
    and "x_range fig = (0, Max (set (map end_time results)) - Min (set (map start_time results)))"
    and "y_range fig = Factors (map digits [0..<length (unique (map worker_id results))])"
proof -
  have w: "map (\<lambda>(s, e). e - s) (zip (map start_time results) (map end_time results))
      = map (\<lambda>r. end_time r - start_time r) results"
    by (simp add: zip_map_map map_idI zip_same_conv_map)
  have x: "map (\<lambda>(w, s). w / 2 + s - m)
        (zip (map (\<lambda>r. end_time r - start_time r) results) (map start_time results))
      = map (\<lambda>r. (end_time r - start_time r) / 2 + start_time r - m) results" for m
    by (simp add: zip_map_map zip_same_conv_map)
  from assms show thesis
    unfolding plot_tasks_def Let_def py_min_eq py_max_eq w x
    by (auto split: if_splits sum.splits intro!: that simp: length_id_lk)
qed

lemma get_colors_nth:
  assumes "get_colors brewer palette funcs = Inr colors"
  shows "length colors = length funcs"
    and "i < length funcs \<Longrightarrow> j < length funcs \<Longrightarrow> funcs ! i = funcs ! j \<Longrightarrow>
         colors ! i = colors ! j"
proof -
  from assms have "\<exists>lookup. collect (map (\<lambda>n. getitem lookup n) funcs) = Inr colors"
    unfolding get_colors_def Let_def by (simp split: sum.splits) blast
  then obtain lookup where c: "collect (map (\<lambda>n. getitem lookup n) funcs) = Inr colors" ..
  show "length colors = length funcs"
    by (rule collect_map_nth(1) [OF c])
  show "colors ! i = colors ! j" if "i < length funcs" "j < length funcs" "funcs ! i = funcs ! j"
    using collect_map_nth(2) [OF c that(1)] collect_map_nth(2) [OF c that(2)] that(3)
    by simp
qed

lemma get_colors_different:
  assumes "getitem brewer palette = Inr pl" and "wf_palette pl"
    and "length (unique funcs) \<le> Max (set (map fst pl))"
    and "get_colors brewer palette funcs = Inr colors"
    and "i < length funcs" and "j < length funcs" and "funcs ! i \<noteq> funcs ! j"
  shows "colors ! i \<noteq> colors ! j"
proof -
  let ?us = "sort (unique funcs)"
  obtain colors2 cs where c2: "get_colors brewer palette funcs = Inr colors2"
    and cs: "length ?us \<le> length cs"
    and at: "\<And>i k. i < length funcs \<Longrightarrow> k < length ?us \<Longrightarrow> funcs ! i = ?us ! k \<Longrightarrow>
               colors2 ! i = cs ! k"
    and dis: "\<not> Max (set (map fst pl)) < length ?us \<Longrightarrow> distinct cs"
  proof (rule get_colors_Inr [OF assms(1,2), where funcs = funcs], goal_cases)
    case (1 colors2 cs)
    from 1(2,4,5,7) show ?case
      by (rule 1(1))
  qed
  from c2 assms(4) have same: "colors2 = colors"
    by simp
  have "funcs ! i \<in> set ?us" "funcs ! j \<in> set ?us"
    using assms(5,6) by simp_all
  then obtain k l where k: "k < length ?us" "?us ! k = funcs ! i"
    and l: "l < length ?us" "?us ! l = funcs ! j"
    unfolding in_set_conv_nth by blast
  from assms(3) have "distinct cs"
    by (intro dis) simp
  moreover from k l assms(7) have "k \<noteq> l"
    by auto
  moreover have "k < length cs" "l < length cs"
    using k(1) l(1) cs by simp_all
  ultimately have "cs ! k \<noteq> cs ! l"
    by (simp add: nth_eq_iff_index_eq)
  moreover have "colors ! i = cs ! k"
    using at [OF assms(5) k(1)] k(2) same by simp
  moreover have "colors ! j = cs ! l"
    using at [OF assms(6) l(1)] l(2) same by simp
  ultimately show ?thesis
    by simp
qed

lemma plot_tasks_returns:
  assumes "results \<noteq> []"
    and "getitem brewer palette = Inr pl" and "wf_palette pl"
    and "\<And>r. r \<in> set results \<Longrightarrow> \<exists>text. pprint_task (task r) (map fst dsk) label_size = Inr text"
  shows "\<exists>fig. plot_tasks brewer results dsk palette label_size = Inr fig"
proof -
  have "\<exists>ys. collect (map (\<lambda>i. map_sum id (\<lambda>n. n + 1) (getitem (id_lk results) i))
       (map worker_id results)) = Inr ys"
  proof (rule collect_returns)
    fix w
    assume that: "w \<in> set (map worker_id results)"
    from that obtain r where "r \<in> set results" "w = worker_id r"
      by auto
    with getitem_id_lk [of r results]
    show "\<exists>v. map_sum id (\<lambda>n. n + 1) (getitem (id_lk results) w) = Inr v"
      by auto
  qed
  then obtain ys where ys:
    "collect (map (\<lambda>i. map_sum id (\<lambda>n. n + 1) (getitem (id_lk results) i))
       (map worker_id results)) = Inr ys" ..
  have "\<exists>funcs. collect (map (\<lambda>i. pprint_task i (map fst dsk) label_size) (map task results))
      = Inr funcs"
  proof (rule collect_returns)
    fix t
    assume "t \<in> set (map task results)"
    then show "\<exists>v. pprint_task t (map fst dsk) label_size = Inr v"
      using assms(4) by auto
  qed
  then obtain funcs where funcs:
    "collect (map (\<lambda>i. pprint_task i (map fst dsk) label_size) (map task results)) = Inr funcs" ..
  obtain colors where colors: "get_colors brewer palette funcs = Inr colors"
  proof (rule get_colors_Inr [OF assms(2,3), where funcs = funcs], goal_cases)
    case (1 colors cs)
    from 1(2) show ?case
      by (rule that)
  qed
  show ?thesis
    unfolding plot_tasks_def Let_def py_min_eq py_max_eq ys funcs
    using assms(1) colors by simp
qed

text \<open>The plot of \<open>example_heads\<close>, step by step.\<close>

lemma example_heads_texts:
  "collect (map (\<lambda>i. pprint_task i (map fst example_dsk) 60) (map task example_heads))
     = Inr [''add(_, _)'', ''add(_, *)'', ''add(_, _)'']"
  by (simp add: example_heads_def example_dsk_def int_truediv_def contains_def)

lemma example_heads_sorted:
  "sort (unique [''add(_, _)'', ''add(_, *)'', ''add(_, _)'']) = [''add(_, *)'', ''add(_, _)'']"
  by (simp add: unique_def)

lemma example_heads_colors:
  "get_colors example_brewer ''GnBu'' [''add(_, _)'', ''add(_, *)'', ''add(_, _)'']
     = Inr [''#a8ddb5'', ''#43a2ca'', ''#a8ddb5'']"
  unfolding get_colors_def Let_def example_heads_sorted
  by (simp add: example_brewer_def example_GnBu_def getitem_def dict_def)

lemma example_heads_id_lk: "id_lk example_heads = [(1, 0), (2, 1)]"
  by (simp add: id_lk_def timings_def groupby_def dict_def sorted_reverse_def
      example_heads_def enumerate_eq_zip)

lemma example_heads_plot:
  "plot_tasks example_brewer example_heads example_dsk ''GnBu'' 60 =
     Inr \<lparr>title = Some ''Profile Results'', x_range = (0, 15),
          y_range = Factors [''0'', ''1''], extra_y_ranges = [],
          xaxis_label = Some ''Time (s)'', yaxis_label = Some ''Worker ID'',
          min_border_top = None, min_border_bottom = None,
          min_border_left = None, min_border_right = None,
          glyphs =
            [Rect \<lparr>data_width = [10, 10, 5], data_x = [5, 10, 25 / 2], data_y = [1, 2, 1],
                   data_function = [''add(_, _)'', ''add(_, *)'', ''add(_, _)''],
                   data_color = [''#a8ddb5'', ''#43a2ca'', ''#a8ddb5''],
                   data_key = [''a'', ''b'', ''c'']\<rparr>]\<rparr>"
  unfolding plot_tasks_def Let_def example_heads_texts sum.case example_heads_colors
    example_heads_id_lk
  by (simp add: example_heads_def getitem_def)

text \<open>The plot of \<open>example_busy\<close>, step by step.\<close>

lemma example_busy_texts:
  "collect (map (\<lambda>i. pprint_task i (map fst example_dsk) 60) (map task example_busy))
     = Inr [''inc(_)'', ''inc(_)'', ''inc(_)'', ''inc(_)'']"
  by (simp add: example_busy_def example_task_def example_dsk_def int_truediv_def contains_def)

lemma example_busy_colors:
  "get_colors example_brewer ''GnBu'' [''inc(_)'', ''inc(_)'', ''inc(_)'', ''inc(_)'']
     = Inr [''#43a2ca'', ''#43a2ca'', ''#43a2ca'', ''#43a2ca'']"
  by (simp add: get_colors_def Let_def unique_def example_brewer_def example_GnBu_def
      getitem_def dict_def)

lemma example_busy_id_lk: "id_lk example_busy = [(2, 0), (1, 1)]"
  by (simp add: id_lk_def timings_def groupby_def dict_def sorted_reverse_def
      example_busy_def example_task_def enumerate_eq_zip)

lemma example_busy_plot:
  "plot_tasks example_brewer example_busy example_dsk ''GnBu'' 60 =
     Inr \<lparr>title = Some ''Profile Results'', x_range = (0, 3),
          y_range = Factors [''0'', ''1''], extra_y_ranges = [],
          xaxis_label = Some ''Time (s)'', yaxis_label = Some ''Worker ID'',
          min_border_top = None, min_border_bottom = None,
          min_border_left = None, min_border_right = None,
          glyphs =
            [Rect \<lparr>data_width = [1, 1, 1, 2], data_x = [1 / 2, 3 / 2, 5 / 2, 1],
                   data_y = [2, 2, 2, 1],
                   data_function = [''inc(_)'', ''inc(_)'', ''inc(_)'', ''inc(_)''],
                   data_color = [''#43a2ca'', ''#43a2ca'', ''#43a2ca'', ''#43a2ca''],
                   data_key = [''a'', ''b'', ''c'', ''d'']\<rparr>]\<rparr>"
  unfolding plot_tasks_def Let_def example_busy_texts sum.case example_busy_colors
    example_busy_id_lk
  by (simp add: example_busy_def example_task_def getitem_def)

text \<open>
  C1: the height coordinate of a rectangle is claimed to be the rank of its slot plus
  one, the slots ranked by the time they were busy. In \<open>example_busy\<close> worker 1 is busy
  for three seconds and worker 2 for two, and the three rectangles of worker 1 are on
  row 2, the rectangle of worker 2 on row 1: the rank is the one of \<open>id_lk\<close>, which
  compares the lists of durations.
\<close>

theorem plot_tasks_busiest_not_first:
  "map_sum id glyphs (plot_tasks example_brewer example_busy example_dsk ''GnBu'' 60) =
     Inr [Rect \<lparr>data_width = [1, 1, 1, 2], data_x = [1 / 2, 3 / 2, 5 / 2, 1],
                data_y = [2, 2, 2, 1],
                data_function = [''inc(_)'', ''inc(_)'', ''inc(_)'', ''inc(_)''],
                data_color = [''#43a2ca'', ''#43a2ca'', ''#43a2ca'', ''#43a2ca''],
                data_key = [''a'', ''b'', ''c'', ''d'']\<rparr>]
   \<and> map worker_id example_busy = [1, 1, 1, 2]
   \<and> sum_list (durations example_busy 1) = 3
   \<and> sum_list (durations example_busy 2) = 2"
  by (simp add: example_busy_plot) (simp add: example_busy_def example_task_def durations_def)

text \<open>
  C1, as the code has it: whenever the task plot is returned there is one rectangle
  for each record, and the rectangle of a record has the width \<open>end_time - start_time\<close>,
  the centre \<open>start_time + width / 2 - left\<close>, where \<open>left\<close> is the least start time of all
  records, and the height coordinate \<open>rank + 1\<close>, where \<open>rank\<close> is the number that
  \<open>id_lk\<close> gives to the worker of the record, which is the number of workers ahead of
  that worker: those with a greater list of durations in the lexicographic order, or with
  the same list and an earlier first appearance.
\<close>

theorem plot_tasks_rectangles:
  assumes "plot_tasks brewer results dsk palette label_size = Inr fig" and "i < length results"
  shows "\<exists>d rank.
           glyphs fig = [Rect d]
           \<and> length (data_width d) = length results
           \<and> length (data_x d) = length results
           \<and> length (data_y d) = length results
           \<and> data_width d ! i = end_time (results ! i) - start_time (results ! i)
           \<and> data_x d ! i = start_time (results ! i) + data_width d ! i / 2
                              - Min (start_time ` set results)
           \<and> map_of (id_lk results) (worker_id (results ! i)) = Some rank
           \<and> rank = length (filter (\<lambda>w. ahead results w (worker_id (results ! i)))
                              (unique (map worker_id results)))
           \<and> data_y d ! i = rank + 1"
proof -
  from assms(1) obtain ys funcs colors where
    ys: "collect (map (\<lambda>i. map_sum id (\<lambda>n. n + 1) (getitem (id_lk results) i))
           (map worker_id results)) = Inr ys"
    and g: "glyphs fig =
           [Rect \<lparr>data_width = map (\<lambda>r. end_time r - start_time r) results,
                  data_x = map (\<lambda>r. (end_time r - start_time r) / 2 + start_time r
                                      - Min (set (map start_time results))) results,
                  data_y = ys, data_function = funcs, data_color = colors,
                  data_key = map key results\<rparr>]"
    by (rule plot_tasks_Inr)
  from collect_map_nth(1) [OF ys] have len: "length ys = length results"
    by simp
  from collect_map_nth(2) [OF ys, of i] assms(2)
  have "map_sum id (\<lambda>n. n + 1) (getitem (id_lk results) (worker_id (results ! i))) = Inr (ys ! i)"
    by simp
  then obtain rank where rank: "map_of (id_lk results) (worker_id (results ! i)) = Some rank"
    "ys ! i = rank + 1"
    by (auto simp: getitem_def split: option.splits)
  have count: "rank = length (filter (\<lambda>w. ahead results w (worker_id (results ! i)))
      (unique (map worker_id results)))"
    by (rule id_lk_count [OF rank(1), symmetric])
  let ?d = "\<lparr>data_width = map (\<lambda>r. end_time r - start_time r) results,
              data_x = map (\<lambda>r. (end_time r - start_time r) / 2 + start_time r
                                  - Min (set (map start_time results))) results,
              data_y = ys, data_function = funcs, data_color = colors,
              data_key = map key results\<rparr>"
  have "glyphs fig = [Rect ?d]
      \<and> length (data_width ?d) = length results
      \<and> length (data_x ?d) = length results
      \<and> length (data_y ?d) = length results
      \<and> data_width ?d ! i = end_time (results ! i) - start_time (results ! i)
      \<and> data_x ?d ! i = start_time (results ! i) + data_width ?d ! i / 2
                         - Min (start_time ` set results)
      \<and> map_of (id_lk results) (worker_id (results ! i)) = Some rank
      \<and> rank = length (filter (\<lambda>w. ahead results w (worker_id (results ! i)))
                         (unique (map worker_id results)))
      \<and> data_y ?d ! i = rank + 1"
    using g len rank assms(2) count by simp
  then show ?thesis
    by (intro exI [where x = ?d] exI [where x = rank])
qed

theorem plot_tasks_rectangles_witness:
  "\<exists>fig d. plot_tasks example_brewer example_heads example_dsk ''GnBu'' 60 = Inr fig
     \<and> glyphs fig = [Rect d]
     \<and> data_width d ! 1 = 10 \<and> data_x d ! 1 = 10 \<and> data_y d ! 1 = 2
     \<and> worker_id (example_heads ! 1) = 2
     \<and> length (filter (\<lambda>w. ahead example_heads w 2) (unique (map worker_id example_heads))) = 1"
proof -
  have i: "1 < length example_heads"
    by (simp add: example_heads_def)
  have two: "worker_id (example_heads ! 1) = 2"
    by (simp add: example_heads_def)
  from plot_tasks_rectangles [OF example_heads_plot i] obtain d rank where
    d: "glyphs \<lparr>title = Some ''Profile Results'', x_range = (0, 15),
          y_range = Factors [''0'', ''1''], extra_y_ranges = [],
          xaxis_label = Some ''Time (s)'', yaxis_label = Some ''Worker ID'',
          min_border_top = None, min_border_bottom = None,
          min_border_left = None, min_border_right = None,
          glyphs =
            [Rect \<lparr>data_width = [10, 10, 5], data_x = [5, 10, 25 / 2], data_y = [1, 2, 1],
                   data_function = [''add(_, _)'', ''add(_, *)'', ''add(_, _)''],
                   data_color = [''#a8ddb5'', ''#43a2ca'', ''#a8ddb5''],
                   data_key = [''a'', ''b'', ''c'']\<rparr>]\<rparr> = [Rect d]"
    and w: "data_width d ! 1 = end_time (example_heads ! 1) - start_time (example_heads ! 1)"
    and x: "data_x d ! 1 = start_time (example_heads ! 1) + data_width d ! 1 / 2
                              - Min (start_time ` set example_heads)"
    and r: "map_of (id_lk example_heads) (worker_id (example_heads ! 1)) = Some rank"
    and c: "rank = length (filter (\<lambda>w. ahead example_heads w (worker_id (example_heads ! 1)))
                              (unique (map worker_id example_heads)))"
    and y: "data_y d ! 1 = rank + 1"
  proof -
    from plot_tasks_rectangles [OF example_heads_plot i] show ?thesis
      by (elim exE conjE) (rule that)
  qed
  from w have w10: "data_width d ! 1 = 10"
    by (simp add: example_heads_def)
  from x have x10: "data_x d ! 1 = 10"
    unfolding w10 by (simp add: example_heads_def)
  from r have one: "rank = 1"
    unfolding example_heads_id_lk two by simp
  from c have "length (filter (\<lambda>w. ahead example_heads w 2)
      (unique (map worker_id example_heads))) = 1"
    unfolding one two by simp
  with x10 one two show ?thesis
    using example_heads_plot d w10 y by simp
qed

text \<open>
  C9: two records whose tasks call the same function are claimed to get the same
  colour. Line 204 passes to \<open>get_colors\<close> the summaries computed in line 203, the whole
  texts: the tasks of \<open>example_heads\<close> all call \<open>add\<close>, the summary of the second
  differs from the summary of the first in the last argument, and their colours differ.
\<close>

theorem plot_tasks_same_head:
  "map task example_heads =
     [Task (Func ''add'') [Leaf (Hashable ''x''), Leaf (Hashable ''y'')],
      Task (Func ''add'') [Leaf (Hashable ''x''), Leaf (Hashable ''1'')],
      Task (Func ''add'') [Leaf (Hashable ''y''), Leaf (Hashable ''x'')]]
   \<and> map_sum id glyphs (plot_tasks example_brewer example_heads example_dsk ''GnBu'' 60) =
       Inr [Rect \<lparr>data_width = [10, 10, 5], data_x = [5, 10, 25 / 2], data_y = [1, 2, 1],
                  data_function = [''add(_, _)'', ''add(_, *)'', ''add(_, _)''],
                  data_color = [''#a8ddb5'', ''#43a2ca'', ''#a8ddb5''],
                  data_key = [''a'', ''b'', ''c'']\<rparr>]"
  by (simp add: example_heads_plot) (simp add: example_heads_def)

text \<open>
  C9, as the code has it: the colours of the records are those that \<open>get_colors\<close>
  gives to the summaries of their tasks; two records with the same summary have the same
  colour, and two records with different summaries have different colours when the
  palette is well formed and its greatest size is at least the number of different
  summaries.
\<close>

theorem plot_tasks_colors:
  assumes "plot_tasks brewer results dsk palette label_size = Inr fig"
  shows "\<exists>d. glyphs fig = [Rect d]
           \<and> collect (map (\<lambda>r. pprint_task (task r) (map fst dsk) label_size) results)
               = Inr (data_function d)
           \<and> get_colors brewer palette (data_function d) = Inr (data_color d)
           \<and> (\<forall>i<length results. \<forall>j<length results.
                 data_function d ! i = data_function d ! j \<longrightarrow>
                 data_color d ! i = data_color d ! j)
           \<and> (\<forall>pl. getitem brewer palette = Inr pl \<and> wf_palette pl
                 \<and> length (unique (data_function d)) \<le> Max (set (map fst pl)) \<longrightarrow>
                 (\<forall>i<length results. \<forall>j<length results.
                    data_function d ! i \<noteq> data_function d ! j \<longrightarrow>
                    data_color d ! i \<noteq> data_color d ! j))"
proof -
  from assms obtain ys funcs colors where
    funcs: "collect (map (\<lambda>i. pprint_task i (map fst dsk) label_size) (map task results))
           = Inr funcs"
    and colors: "get_colors brewer palette funcs = Inr colors"
    and g: "glyphs fig =
           [Rect \<lparr>data_width = map (\<lambda>r. end_time r - start_time r) results,
                  data_x = map (\<lambda>r. (end_time r - start_time r) / 2 + start_time r
                                      - Min (set (map start_time results))) results,
                  data_y = ys, data_function = funcs, data_color = colors,
                  data_key = map key results\<rparr>]"
    by (rule plot_tasks_Inr)
  have len: "length funcs = length results"
    using collect_map_nth(1) [OF funcs] by simp
  have texts: "collect (map (\<lambda>r. pprint_task (task r) (map fst dsk) label_size) results)
      = Inr funcs"
    using funcs by (simp add: comp_def)
  have same: "colors ! i = colors ! j"
    if "i < length results" "j < length results" "funcs ! i = funcs ! j" for i j
    by (rule get_colors_nth(2) [OF colors]) (simp_all add: that len)
  have different: "colors ! i \<noteq> colors ! j"
    if "getitem brewer palette = Inr pl" "wf_palette pl"
      "length (unique funcs) \<le> Max (set (map fst pl))"
      "i < length results" "j < length results" "funcs ! i \<noteq> funcs ! j" for pl i j
    by (rule get_colors_different [OF that(1-3) colors]) (simp_all add: that(4-6) len)
  let ?d = "\<lparr>data_width = map (\<lambda>r. end_time r - start_time r) results,
              data_x = map (\<lambda>r. (end_time r - start_time r) / 2 + start_time r
                                  - Min (set (map start_time results))) results,
              data_y = ys, data_function = funcs, data_color = colors,
              data_key = map key results\<rparr>"
  have sel: "data_function ?d = funcs" "data_color ?d = colors"
    by simp_all
  show ?thesis
  proof (intro exI [where x = ?d] conjI allI impI)
    show "glyphs fig = [Rect ?d]"
      by (rule g)
    show "collect (map (\<lambda>r. pprint_task (task r) (map fst dsk) label_size) results)
        = Inr (data_function ?d)"
      unfolding sel by (rule texts)
    show "get_colors brewer palette (data_function ?d) = Inr (data_color ?d)"
      unfolding sel by (rule colors)
    show "data_color ?d ! i = data_color ?d ! j"
      if "i < length results" "j < length results"
        "data_function ?d ! i = data_function ?d ! j" for i j
      using that unfolding sel by (rule same)
    show "data_color ?d ! i \<noteq> data_color ?d ! j"
      if "getitem brewer palette = Inr pl \<and> wf_palette pl
          \<and> length (unique (data_function ?d)) \<le> Max (set (map fst pl))"
        "i < length results" "j < length results"
        "data_function ?d ! i \<noteq> data_function ?d ! j" for pl i j
    proof -
      from that(1) have "getitem brewer palette = Inr pl" "wf_palette pl"
        "length (unique funcs) \<le> Max (set (map fst pl))"
        unfolding sel by blast+
      moreover from that(2-4) have "i < length results" "j < length results"
        "funcs ! i \<noteq> funcs ! j"
        unfolding sel by blast+
      ultimately show ?thesis
        unfolding sel by (rule different)
    qed
  qed
qed

theorem plot_tasks_colors_witness:
  "\<exists>fig d. plot_tasks example_brewer example_heads example_dsk ''GnBu'' 60 = Inr fig
     \<and> glyphs fig = [Rect d]
     \<and> data_function d = [''add(_, _)'', ''add(_, *)'', ''add(_, _)'']
     \<and> getitem example_brewer ''GnBu'' = Inr example_GnBu \<and> wf_palette example_GnBu
     \<and> length (unique (data_function d)) \<le> Max (set (map fst example_GnBu))
     \<and> data_color d ! 0 = data_color d ! 2
     \<and> data_color d ! 0 \<noteq> data_color d ! 1"
proof -
  from plot_tasks_colors [OF example_heads_plot] obtain d where
    d: "glyphs \<lparr>title = Some ''Profile Results'', x_range = (0, 15),
          y_range = Factors [''0'', ''1''], extra_y_ranges = [],
          xaxis_label = Some ''Time (s)'', yaxis_label = Some ''Worker ID'',
          min_border_top = None, min_border_bottom = None,
          min_border_left = None, min_border_right = None,
          glyphs =
            [Rect \<lparr>data_width = [10, 10, 5], data_x = [5, 10, 25 / 2], data_y = [1, 2, 1],
                   data_function = [''add(_, _)'', ''add(_, *)'', ''add(_, _)''],
                   data_color = [''#a8ddb5'', ''#43a2ca'', ''#a8ddb5''],
                   data_key = [''a'', ''b'', ''c'']\<rparr>]\<rparr> = [Rect d]"
    and same: "\<forall>i<length example_heads. \<forall>j<length example_heads.
                 data_function d ! i = data_function d ! j \<longrightarrow>
                 data_color d ! i = data_color d ! j"
    and different: "\<forall>pl. getitem example_brewer ''GnBu'' = Inr pl \<and> wf_palette pl
                 \<and> length (unique (data_function d)) \<le> Max (set (map fst pl)) \<longrightarrow>
                 (\<forall>i<length example_heads. \<forall>j<length example_heads.
                    data_function d ! i \<noteq> data_function d ! j \<longrightarrow>
                    data_color d ! i \<noteq> data_color d ! j)"
    by blast
  from d have f: "data_function d = [''add(_, _)'', ''add(_, *)'', ''add(_, _)'']"
    by auto
  have n: "length (unique (data_function d)) \<le> Max (set (map fst example_GnBu))"
    unfolding f example_GnBu_max by (simp add: unique_def)
  from same [rule_format, of 0 2] have "data_color d ! 0 = data_color d ! 2"
    unfolding f by (simp add: example_heads_def)
  moreover
  from different [rule_format, of example_GnBu 0 1] example_brewer_GnBu example_GnBu_wf n
  have "data_color d ! 0 \<noteq> data_color d ! 1"
    unfolding f by (simp add: example_heads_def)
  ultimately show ?thesis
    using example_heads_plot d f n example_brewer_GnBu example_GnBu_wf by simp
qed

section \<open>Empty and single inputs\<close>

text \<open>
  The result of a run is what the function without the calls returns.
\<close>

lemma plot_tasks_run_result:
  "snd (plot_tasks_run brewer results dsk palette label_size)
     = plot_tasks brewer results dsk palette label_size"
  by (simp add: plot_tasks_run_def plot_tasks_def Let_def split: sum.splits)

lemma plot_resources_run_result:
  "snd (plot_resources_run brewer results palette) = plot_resources brewer results palette"
  by (simp add: plot_resources_run_def plot_resources_def Let_def split: sum.splits)

text \<open>
  C7: on an empty input both plots are claimed to fail with a typed
  \<open>EmptyTraceError\<close>, and on a single record or sample to succeed. The source has no such
  error: the unpacking of \<open>zip(*results)\<close> in the first line of each function raises
  Python's \<open>ValueError\<close>, before any call to bokeh. And the plot of a single record fails
  when its task has no summary, as for the task of \<open>example_noargs\<close>, then after the call
  of \<open>bp.figure\<close>.
\<close>

theorem plot_empty_or_single_example:
  "plot_tasks example_brewer [] example_dsk ''GnBu'' 60 = Inl ValueError
   \<and> plot_resources example_brewer [] ''GnBu'' = Inl ValueError
   \<and> plot_tasks example_brewer [example_noargs] example_dsk ''GnBu'' 60 = Inl ZeroDivisionError
   \<and> plot_tasks_run example_brewer [] example_dsk ''GnBu'' 60 = ([], Inl ValueError)
   \<and> plot_resources_run example_brewer [] ''GnBu'' = ([], Inl ValueError)
   \<and> plot_tasks_run example_brewer [example_noargs] example_dsk ''GnBu'' 60
       = ([Call_bp_figure], Inl ZeroDivisionError)"
  by (simp add: plot_tasks_def plot_resources_def plot_tasks_run_def plot_resources_run_def
      example_noargs_def int_truediv_def Let_def
      id_lk_def timings_def groupby_def dict_def sorted_reverse_def getitem_def enumerate_eq_zip)

text \<open>
  C7, as the code has it: on an empty input both plots raise \<open>ValueError\<close>, in their
  first line, before any call to bokeh: the run ends with no call made. The plot of a
  single record is returned, with
  one rectangle, when the palette is well formed and the task of the record has a summary;
  the plot of a single sample is returned when the palette has an entry of size 6 with
  at least three colours.
\<close>

theorem plot_empty_or_single:
  "plot_tasks_run brewer [] dsk palette label_size = ([], Inl ValueError)
   \<and> plot_resources_run brewer [] palette = ([], Inl ValueError)
   \<and> plot_tasks brewer [] dsk palette label_size = Inl ValueError
   \<and> plot_resources brewer [] palette = Inl ValueError
   \<and> (\<forall>pl summary.
         getitem brewer palette = Inr pl \<and> wf_palette pl
         \<and> pprint_task (task r) (map fst dsk) label_size = Inr summary \<longrightarrow>
         (\<exists>fig d. plot_tasks brewer [r] dsk palette label_size = Inr fig
            \<and> glyphs fig = [Rect d] \<and> length (data_x d) = 1))
   \<and> (\<forall>pl colors.
         getitem brewer palette = Inr pl \<and> getitem pl 6 = Inr colors \<and> 3 \<le> length colors \<longrightarrow>
         (\<exists>fig. plot_resources brewer [s] palette = Inr fig))"
proof (intro conjI allI impI)
  show "plot_tasks_run brewer [] dsk palette label_size = ([], Inl ValueError)"
    by (simp add: plot_tasks_run_def)
  show "plot_resources_run brewer [] palette = ([], Inl ValueError)"
    by (simp add: plot_resources_run_def)
  show "plot_tasks brewer [] dsk palette label_size = Inl ValueError"
    by (simp add: plot_tasks_def)
  show "plot_resources brewer [] palette = Inl ValueError"
    by (simp add: plot_resources_def)
  show "\<exists>fig d. plot_tasks brewer [r] dsk palette label_size = Inr fig
            \<and> glyphs fig = [Rect d] \<and> length (data_x d) = 1"
    if "getitem brewer palette = Inr pl \<and> wf_palette pl
         \<and> pprint_task (task r) (map fst dsk) label_size = Inr summary" for pl summary
  proof -
    from that have pl: "getitem brewer palette = Inr pl" "wf_palette pl"
      and summary: "pprint_task (task r) (map fst dsk) label_size = Inr summary"
      by blast+
    have "\<exists>fig. plot_tasks brewer [r] dsk palette label_size = Inr fig"
    proof (rule plot_tasks_returns [OF _ pl])
      show "[r] \<noteq> []"
        by simp
      show "\<exists>summary. pprint_task (task q) (map fst dsk) label_size = Inr summary"
        if "q \<in> set [r]" for q
        using that summary by simp
    qed
    then obtain fig where fig: "plot_tasks brewer [r] dsk palette label_size = Inr fig" ..
    from fig obtain ys funcs colors where
      "glyphs fig =
           [Rect \<lparr>data_width = map (\<lambda>r. end_time r - start_time r) [r],
                  data_x = map (\<lambda>q. (end_time q - start_time q) / 2 + start_time q
                                      - Min (set (map start_time [r]))) [r],
                  data_y = ys, data_function = funcs, data_color = colors,
                  data_key = map key [r]\<rparr>]"
      by (rule plot_tasks_Inr)
    with fig show ?thesis
      by simp
  qed
  show "\<exists>fig. plot_resources brewer [s] palette = Inr fig"
    if "getitem brewer palette = Inr pl \<and> getitem pl 6 = Inr colors \<and> 3 \<le> length colors"
    for pl colors
  proof -
    from that have "getitem brewer palette = Inr pl" "getitem pl 6 = Inr colors"
      "3 \<le> length colors"
      by blast+
    with plot_resources_returns [of "[s]" brewer palette pl colors] show ?thesis
      by simp
  qed
qed

theorem plot_empty_or_single_witness:
  "getitem example_brewer ''GnBu'' = Inr example_GnBu \<and> wf_palette example_GnBu
   \<and> pprint_task (task (example_task ''a'' 0 1 1)) (map fst example_dsk) 60 = Inr ''inc(_)''
   \<and> (\<exists>fig d. plot_tasks example_brewer [example_task ''a'' 0 1 1] example_dsk ''GnBu'' 60 = Inr fig
         \<and> glyphs fig = [Rect d] \<and> length (data_x d) = 1)
   \<and> (\<exists>colors. getitem example_GnBu 6 = Inr colors \<and> 3 \<le> length colors)
   \<and> (\<exists>fig. plot_resources example_brewer [(0, 10, 100)] ''GnBu'' = Inr fig)
   \<and> plot_tasks_run example_brewer [] example_dsk ''GnBu'' 60 = ([], Inl ValueError)
   \<and> plot_resources_run example_brewer [] ''GnBu'' = ([], Inl ValueError)"
proof -
  note t = plot_empty_or_single [of example_brewer example_dsk "''GnBu''" 60
      "example_task ''a'' 0 1 1" "(0, 10, 100)"]
  have inc: "pprint_task (task (example_task ''a'' 0 1 1)) (map fst example_dsk) 60 = Inr ''inc(_)''"
    by (simp add: example_task_def example_dsk_def int_truediv_def contains_def)
  have six: "getitem example_GnBu 6
      = Inr [''#0868ac'', ''#43a2ca'', ''#7bccc4'', ''#a8ddb5'', ''#ccebc5'', ''#f0f9e8'']"
    by (simp add: example_GnBu_def getitem_def)
  from t [THEN conjunct2, THEN conjunct2, THEN conjunct2, THEN conjunct2, THEN conjunct1,
      rule_format, of example_GnBu "''inc(_)''"]
    example_brewer_GnBu example_GnBu_wf inc
  have 1: "\<exists>fig d. plot_tasks example_brewer [example_task ''a'' 0 1 1] example_dsk ''GnBu'' 60
      = Inr fig \<and> glyphs fig = [Rect d] \<and> length (data_x d) = 1"
    by blast
  from t [THEN conjunct2, THEN conjunct2, THEN conjunct2, THEN conjunct2, THEN conjunct2,
      rule_format, of example_GnBu
      "[''#0868ac'', ''#43a2ca'', ''#7bccc4'', ''#a8ddb5'', ''#ccebc5'', ''#f0f9e8'']"]
    example_brewer_GnBu six
  have 2: "\<exists>fig. plot_resources example_brewer [(0, 10, 100)] ''GnBu'' = Inr fig"
    by simp
  from six have "\<exists>colors. getitem example_GnBu 6 = Inr colors \<and> 3 \<le> length colors"
    by simp
  with 1 2 inc example_brewer_GnBu example_GnBu_wf
    t [THEN conjunct1] t [THEN conjunct2, THEN conjunct1]
  show ?thesis
    by (intro conjI)
qed

end
